theory Spec2Isabelle
  imports Complex_Main "HOL-Library.Log_Nat"
begin

section \<open>JavaScript numbers\<close>

text \<open>
  Every \<^verbatim>\<open>number\<close> of the TypeScript source is an IEEE-754 binary64 value.  A finite
  double is a rational, so numbers are modelled as \<^typ>\<open>rat\<close>, and every arithmetic
  operation of the source rounds its exact result to the nearest value with a 53-bit
  significand, ties to even (\<open>dbl\<close>).  The exponent range is taken as unbounded: overflow
  to \<^verbatim>\<open>Infinity\<close>, subnormals and \<^verbatim>\<open>NaN\<close> are outside the model, so \<open>dbl\<close> is the
  rounding of binary64 on the exact results from \<open>2\<^sup>-\<^sup>1\<^sup>0\<^sup>2\<^sup>2\<close> to \<open>2\<^sup>1\<^sup>0\<^sup>2\<^sup>3\<close> in
  absolute value and on 0.  The section on binary64 with its exponent range defines that
  rounding in full (\<open>binary64\<close>), and the theorems on the ladder are stated for inputs
  on which every operation of the loop stays in the common range (\<open>agree\<close>).
\<close>

definition ilog2 :: "rat \<Rightarrow> int" where
  "ilog2 x = (case quotient_of x of (p, q) \<Rightarrow>
     (let d = bitlen p - bitlen q in if 2 powi d \<le> x then d else d - 1))"

definition round_half_even :: "rat \<Rightarrow> int" where
  "round_half_even x = (let f = \<lfloor>x\<rfloor>; r = x - of_int f in
     if r < 1 / 2 then f else if 1 / 2 < r then f + 1 else if even f then f else f + 1)"

definition dbl_pos :: "rat \<Rightarrow> rat" where
  "dbl_pos x = (let u = 2 powi (ilog2 x - 52) in of_int (round_half_even (x / u)) * u)"

definition dbl :: "rat \<Rightarrow> rat" where
  "dbl x = (if x = 0 then 0 else if 0 < x then dbl_pos x else - dbl_pos (- x))"

definition fadd :: "rat \<Rightarrow> rat \<Rightarrow> rat" where
  "fadd x y = dbl (x + y)"

definition fsub :: "rat \<Rightarrow> rat \<Rightarrow> rat" where
  "fsub x y = dbl (x - y)"

definition fmul :: "rat \<Rightarrow> rat \<Rightarrow> rat" where
  "fmul x y = dbl (x * y)"

definition fdiv :: "rat \<Rightarrow> rat \<Rightarrow> rat" where
  "fdiv x y = dbl (x / y)"

text \<open>\<^verbatim>\<open>Math.round\<close>: the nearest integer, a tie going towards \<open>+\<infinity>\<close>; exact on a double.\<close>

definition Math_round :: "rat \<Rightarrow> rat" where
  "Math_round x = of_int \<lfloor>x + 1 / 2\<rfloor>"

text \<open>\<^verbatim>\<open>String.prototype.includes\<close>.\<close>

fun str_includes :: "string \<Rightarrow> string \<Rightarrow> bool" where
  "str_includes [] sub = (sub = [])"
| "str_includes (c # cs) sub = (take (length sub) (c # cs) = sub \<or> str_includes cs sub)"

section \<open>Data model (types/grid.ts)\<close>

datatype GridDirection = LONG | SHORT

record GridConfig =
  symbol :: string
  direction :: GridDirection
  leverage :: rat
  upperPrice :: rat
  lowerPrice :: rat
  gridSpread :: rat
  quantityPerGrid :: rat

record GridLevel =
  index :: int
  price :: rat
  buyOrderId :: string
  sellOrderId :: string

text \<open>The literal type \<^verbatim>\<open>"open" | "close"\<close> of a target's action.\<close>

datatype action = Open | Close

fun action_str :: "action \<Rightarrow> string" where
  "action_str Open = ''open''"
| "action_str Close = ''close''"

record TargetOrder =
  tprice :: rat
  amount :: rat
  action :: action

text \<open>
  An order as the venue reports it (ccxt): \<open>posSide\<close> and \<open>tradeSide\<close> are the fields of
  \<^verbatim>\<open>o.info\<close>, which may be absent.
\<close>

record RemoteOrder =
  oid :: string
  osymbol :: string
  oprice :: rat
  side :: string
  posSide :: "string option"
  tradeSide :: "string option"
  status :: string
  filled :: rat

record CreateRequest =
  req_symbol :: string
  req_type :: string
  req_side :: string
  req_amount :: rat
  req_price :: rat
  req_tradeSide :: string
  req_timeInForce :: string

text \<open>A thrown \<^verbatim>\<open>Error\<close>: its message and the \<^verbatim>\<open>code\<close> property the source may attach.\<close>

record js_error =
  message :: string
  code :: "string option"

section \<open>OrderExecutor (exchange/orderExecutor.ts)\<close>

text \<open>
  The exchange client is external.  One call of \<open>syncActiveOrders\<close> asks it at most once for
  each of the three operations below, so the client is a record of the answers: a thrown
  error (\<open>Inl\<close>) or a value.  \<open>createOrders\<close> answers with the ids of the new orders, or
  with \<open>None\<close> for a response that is not an array.
\<close>

record gateway =
  fetchOpenOrders :: "string \<Rightarrow> js_error + RemoteOrder list"
  cancelOrders :: "string list \<Rightarrow> string \<Rightarrow> js_error + unit"
  createOrders :: "CreateRequest list \<Rightarrow> js_error + string list option"

datatype gateway_call =
    FetchOpenOrders string
  | CancelOrders "string list" string
  | CancelOrder string string
  | CreateOrders "CreateRequest list"

text \<open>The executor's state: the id cache per strategy key, and the calls issued so far.\<close>

record executor =
  localOrderCache :: "string \<rightharpoonup> string set"
  issued :: "gateway_call list"

fun direction_str :: "GridDirection \<Rightarrow> string" where
  "direction_str LONG = ''LONG''"
| "direction_str SHORT = ''SHORT''"

definition getCacheKey :: "string \<Rightarrow> GridDirection \<Rightarrow> string" where
  "getCacheKey symb dir = symb @ ''_'' @ direction_str dir"

text \<open>The literal \<^verbatim>\<open>0.00000001\<close>.\<close>

definition epsilon :: rat where
  "epsilon = dbl (1 / 100000000)"

definition belongs :: "GridDirection \<Rightarrow> RemoteOrder \<Rightarrow> bool" where
  "belongs dir od =
     (let targetPosSide = (if dir = LONG then ''long'' else ''short'');
          fallback = (if side od = ''buy'' then ''long'' else ''short'');
          orderPosSide = (case posSide od of None \<Rightarrow> fallback
                          | Some p \<Rightarrow> if p = [] then fallback else p)
      in orderPosSide = targetPosSide)"

definition matches :: "TargetOrder \<Rightarrow> RemoteOrder \<Rightarrow> bool" where
  "matches target od =
     (let priceMatch = (\<bar>fsub (oprice od) (tprice target)\<bar> < epsilon);
          actionMatch = (tradeSide od = Some (action_str (action target)))
      in priceMatch \<and> actionMatch)"

text \<open>
  The loop over \<open>targetLevels\<close>: the first live order matching a target is kept, a target
  without one is to be placed.  The result is \<open>(ordersToKeep, targetsToPlace)\<close>.
\<close>

fun classify :: "RemoteOrder list \<Rightarrow> TargetOrder list \<Rightarrow> RemoteOrder list \<times> TargetOrder list" where
  "classify orders [] = ([], [])"
| "classify orders (target # rest) =
     (case classify orders rest of (ordersToKeep, targetsToPlace) \<Rightarrow>
        (case find (matches target) orders of
           Some existingOrder \<Rightarrow> (existingOrder # ordersToKeep, targetsToPlace)
         | None \<Rightarrow> (ordersToKeep, target # targetsToPlace)))"

definition batchCreate :: "string \<Rightarrow> GridDirection \<Rightarrow> TargetOrder \<Rightarrow> CreateRequest" where
  "batchCreate symb dir target =
     \<lparr> req_symbol = symb, req_type = ''limit'',
       req_side = (if dir = LONG then ''buy'' else ''sell''),
       req_amount = amount target, req_price = tprice target,
       req_tradeSide = action_str (action target), req_timeInForce = ''post_only'' \<rparr>"

definition call :: "gateway_call \<Rightarrow> executor \<Rightarrow> executor" where
  "call c ex = ex\<lparr> issued := issued ex @ [c] \<rparr>"

text \<open>Step 5: the batch cancel, and the per-id fallback when the batch call throws.\<close>

definition cancelStep :: "gateway \<Rightarrow> string \<Rightarrow> string list \<Rightarrow> executor \<Rightarrow> executor" where
  "cancelStep gw symb ordersToCancel ex =
     (if length ordersToCancel > 0 then
        (let ex1 = call (CancelOrders ordersToCancel symb) ex
         in case cancelOrders gw ordersToCancel symb of
              Inr _ \<Rightarrow> ex1
            | Inl e \<Rightarrow> fold (\<lambda>i. call (CancelOrder i symb)) ordersToCancel ex1)
      else ex)"

definition isNoPosition :: "string \<Rightarrow> bool" where
  "isNoPosition msg = (str_includes msg ''22002'' \<or> str_includes msg ''No position to close'')"

text \<open>Step 6: the batch create; its \<^verbatim>\<open>catch\<close> rethrows a no-position failure.\<close>

definition createStep ::
  "gateway \<Rightarrow> string \<Rightarrow> CreateRequest list \<Rightarrow> executor \<Rightarrow> (js_error + unit) \<times> executor" where
  "createStep gw cacheKey batchCreates ex =
     (if length batchCreates > 0 then
        (let ex1 = call (CreateOrders batchCreates) ex
         in case createOrders gw batchCreates of
              Inr None \<Rightarrow> (Inr (), ex1)
            | Inr (Some newOrders) \<Rightarrow>
                (Inr (), ex1\<lparr> localOrderCache := (localOrderCache ex1)
                   (cacheKey \<mapsto> (case localOrderCache ex1 cacheKey of
                                     None \<Rightarrow> set newOrders
                                   | Some c \<Rightarrow> c \<union> set newOrders)) \<rparr>)
            | Inl e \<Rightarrow>
                if isNoPosition (message e)
                then (Inl \<lparr> message = message e, code = Some ''NO_POSITION'' \<rparr>, ex1)
                else (Inr (), ex1))
      else (Inr (), ex))"

text \<open>
  The body of the outer \<^verbatim>\<open>try\<close> block of \<open>syncActiveOrders\<close> (lines 186 to 298).
  \<^verbatim>\<open>ordersToKeep.includes(o)\<close> compares object identities; here the orders of the
  snapshot are compared as records, which is the same test as long as no two entries of
  the snapshot are equal (their ids are distinct).
\<close>

definition syncTry ::
  "gateway \<Rightarrow> string \<Rightarrow> GridDirection \<Rightarrow> TargetOrder list \<Rightarrow> executor
     \<Rightarrow> (js_error + unit) \<times> executor" where
  "syncTry gw symb dir targetLevels ex0 =
     (let cacheKey = getCacheKey symb dir;
          ex1 = (if localOrderCache ex0 cacheKey = None
                 then ex0\<lparr> localOrderCache := (localOrderCache ex0)(cacheKey \<mapsto> {}) \<rparr>
                 else ex0);
          ex2 = call (FetchOpenOrders symb) ex1
      in case fetchOpenOrders gw symb of
           Inl e \<Rightarrow> (Inl e, ex2)
         | Inr openOrders \<Rightarrow>
            (let currentStrategyOrders = filter (belongs dir) openOrders;
                 remoteIds = set (map oid currentStrategyOrders);
                 ex3 = ex2\<lparr> localOrderCache := (localOrderCache ex2)
                         (cacheKey \<mapsto> (case localOrderCache ex2 cacheKey of
                                           None \<Rightarrow> {} | Some c \<Rightarrow> c \<inter> remoteIds)) \<rparr>
             in case classify currentStrategyOrders targetLevels of
                  (ordersToKeep, targetsToPlace) \<Rightarrow>
                    (let ordersToDispose =
                           filter (\<lambda>od. od \<notin> set ordersToKeep) currentStrategyOrders;
                         ordersToCancel = map oid ordersToDispose;
                         batchCreates = map (batchCreate symb dir) targetsToPlace;
                         ex4 = cancelStep gw symb ordersToCancel ex3
                     in createStep gw cacheKey batchCreates ex4)))"

text \<open>
  \<open>syncActiveOrders\<close>: whatever the \<^verbatim>\<open>try\<close> block throws is caught by the
  \<^verbatim>\<open>catch (error)\<close> of line 299, which logs it and returns.
\<close>

definition syncActiveOrders ::
  "gateway \<Rightarrow> string \<Rightarrow> GridDirection \<Rightarrow> TargetOrder list \<Rightarrow> executor
     \<Rightarrow> (js_error + unit) \<times> executor" where
  "syncActiveOrders gw symb dir targetLevels ex =
     (case syncTry gw symb dir targetLevels ex of
        (Inl error, ex') \<Rightarrow> (Inr (), ex')
      | (Inr u, ex') \<Rightarrow> (Inr u, ex'))"

section \<open>GridContext (logic/gridContext.ts)\<close>

record GridContext =
  config :: GridConfig
  levels :: "GridLevel list"

definition roundToTick :: "rat \<Rightarrow> rat \<Rightarrow> rat" where
  "roundToTick tickSize p =
     (let precision = fdiv 1 tickSize
      in fdiv (Math_round (fmul p precision)) precision)"

definition mkLevel :: "int \<Rightarrow> rat \<Rightarrow> GridLevel" where
  "mkLevel i p = \<lparr> index = i, price = p, buyOrderId = [], sellOrderId = [] \<rparr>"

text \<open>
  The \<^verbatim>\<open>while (currentPrice < upperPrice)\<close> loop of \<open>calculateLevels\<close>.  Nothing bounds the
  number of its iterations, so a run that never leaves the loop is the value \<open>None\<close>.
\<close>

partial_function (option) levelsLoop ::
  "rat \<Rightarrow> rat \<Rightarrow> rat \<Rightarrow> rat \<Rightarrow> int \<Rightarrow> GridLevel list \<Rightarrow> GridLevel list option" where
  [code]: "levelsLoop tickSize upper spread currentPrice idx lvls =
     (if currentPrice < upper then
        levelsLoop tickSize upper spread (fmul currentPrice (fadd 1 spread)) (idx + 1)
          (lvls @ [mkLevel (idx + 1) (roundToTick tickSize (fmul currentPrice (fadd 1 spread)))])
      else Some lvls)"

definition calculateLevels :: "GridConfig \<Rightarrow> rat \<Rightarrow> GridLevel list option" where
  "calculateLevels cfg tickSize =
     levelsLoop tickSize (upperPrice cfg) (gridSpread cfg) (lowerPrice cfg) 0
       [mkLevel 0 (roundToTick tickSize (lowerPrice cfg))]"

text \<open>The search loop of \<open>getNearestLevels\<close> over the adjacent pairs of levels.\<close>

fun findBracket :: "GridLevel list \<Rightarrow> rat \<Rightarrow> (GridLevel \<times> GridLevel) option" where
  "findBracket (lower # upper # rest) currentPrice =
     (if price lower \<le> currentPrice \<and> currentPrice \<le> price upper then Some (lower, upper)
      else findBracket (upper # rest) currentPrice)"
| "findBracket lvls currentPrice = None"

definition getNearestLevels :: "GridContext \<Rightarrow> rat \<Rightarrow> (GridLevel \<times> GridLevel) option" where
  "getNearestLevels ctx currentPrice =
     (if length (levels ctx) < 2 then None
      else if upperPrice (config ctx) \<le> currentPrice \<or> currentPrice \<le> lowerPrice (config ctx)
      then None
      else findBracket (levels ctx) currentPrice)"

section \<open>The ledger (saveToCsv, loadFromCsv, checkConfigMatch, initialize)\<close>

subsection \<open>Strings\<close>


definition comma :: char where
  "comma = CHR '',''"




text \<open>\<^verbatim>\<open>s.split(c)\<close> for a separator of one character.\<close>

fun split :: "char \<Rightarrow> string \<Rightarrow> string list" where
  "split c [] = [[]]"
| "split c (x # xs) =
     (if x = c then [] # split c xs
      else (case split c xs of [] \<Rightarrow> [[x]] | y # ys \<Rightarrow> (x # y) # ys))"




subsection \<open>The number conversions of the runtime\<close>

text \<open>
  How JavaScript prints a number in a template literal and reads one back
  (\<^verbatim>\<open>parseInt\<close>, \<^verbatim>\<open>parseFloat\<close>, \<^verbatim>\<open>Number\<close>) belongs to the runtime, not to the
  repository: the four conversions are parameters of the ledger functions.  A conversion
  that yields \<^verbatim>\<open>NaN\<close> is \<open>None\<close>.
\<close>

record js_runtime =
  numToString :: "rat \<Rightarrow> string"
  parseInt :: "string \<Rightarrow> int option"
  parseFloat :: "string \<Rightarrow> rat option"
  toNumber :: "string \<Rightarrow> rat option"

subsection \<open>Saving and loading\<close>








section \<open>BotEngine (logic/botEngine.ts)\<close>

text \<open>
  The engine's mutable fields.  The strategy locks serialise asynchronous tasks; this part
  of the model runs one handler at a time, so they do not appear in it.  The tasks and
  the locks are the subject of the section on asynchronous refresh tasks.
\<close>

record engine =
  anchorIndices :: "string \<rightharpoonup> int"
  lastAnchorResetTime :: "string \<rightharpoonup> int"
  isCloseDisabled :: "string \<rightharpoonup> bool"
  exec :: executor

definition getStratKey :: "string \<Rightarrow> GridDirection \<Rightarrow> string" where
  "getStratKey symb dir = symb @ ''_'' @ direction_str dir"

text \<open>Reading a property of \<^verbatim>\<open>undefined\<close> (a level outside the array) throws a TypeError.\<close>

definition typeError :: js_error where
  "typeError = \<lparr> message = ''Cannot read properties of undefined'', code = None \<rparr>"

text \<open>\<^verbatim>\<open>appConfig.default.order_window || 1\<close>\<close>

definition windowSizeOf :: "int \<Rightarrow> int" where
  "windowSizeOf order_window = (if order_window = 0 then 1 else order_window)"

text \<open>The window below the anchor: \<^verbatim>\<open>for (let i = 1; i <= windowSize; i++)\<close>.\<close>

function lowerWindow ::
  "GridConfig \<Rightarrow> GridLevel list \<Rightarrow> int \<Rightarrow> int \<Rightarrow> int \<Rightarrow> TargetOrder list
     \<Rightarrow> js_error + TargetOrder list" where
  "lowerWindow cfg lvls anchorIndex windowSize i targets =
     (if i \<le> windowSize then
        (let idx = anchorIndex - i in
         if idx < 0 then Inr targets
         else if int (length lvls) \<le> idx then Inl typeError
         else lowerWindow cfg lvls anchorIndex windowSize (i + 1)
                (targets @ [\<lparr> tprice = price (lvls ! nat idx), amount = quantityPerGrid cfg,
                               action = (if direction cfg = LONG then Open else Close) \<rparr>]))
      else Inr targets)"
  by pat_completeness auto
termination
  by (relation "measure (\<lambda>(cfg, lvls, anchorIndex, windowSize, i, targets). nat (windowSize + 1 - i))")
     auto

declare lowerWindow.simps [simp del]

text \<open>The window above the anchor; a LONG strategy skips its close targets while disabled.\<close>

function upperWindow ::
  "GridConfig \<Rightarrow> GridLevel list \<Rightarrow> int \<Rightarrow> int \<Rightarrow> bool \<Rightarrow> int \<Rightarrow> TargetOrder list
     \<Rightarrow> js_error + TargetOrder list" where
  "upperWindow cfg lvls anchorIndex windowSize disabled i targets =
     (if i \<le> windowSize then
        (let idx = anchorIndex + i; isLongClose = (direction cfg = LONG) in
         if int (length lvls) \<le> idx then Inr targets
         else if isLongClose \<and> disabled
         then upperWindow cfg lvls anchorIndex windowSize disabled (i + 1) targets
         else if idx < 0 then Inl typeError
         else upperWindow cfg lvls anchorIndex windowSize disabled (i + 1)
                (targets @ [\<lparr> tprice = price (lvls ! nat idx), amount = quantityPerGrid cfg,
                               action = (if isLongClose then Close else Open) \<rparr>]))
      else Inr targets)"
  by pat_completeness auto
termination
  by (relation "measure (\<lambda>(cfg, lvls, anchorIndex, windowSize, disabled, i, targets).
        nat (windowSize + 1 - i))") auto

declare upperWindow.simps [simp del]

text \<open>
  The in-place filter of a SHORT strategy's close targets:
  \<^verbatim>\<open>for (let i = 0; i < targets.length; i++) { ... targets.splice(i, 1); i--; ... }\<close>.
  After a splice the index is decremented and then incremented, so the next iteration
  looks at the same position of the shortened array.
\<close>

function spliceLoop :: "GridConfig \<Rightarrow> bool \<Rightarrow> nat \<Rightarrow> TargetOrder list \<Rightarrow> TargetOrder list" where
  "spliceLoop cfg disabled i targets =
     (if i < length targets then
        (if direction cfg = SHORT \<and> action (targets ! i) = Close then
           (if disabled then spliceLoop cfg disabled i (take i targets @ drop (i + 1) targets)
            else spliceLoop cfg disabled (i + 1) targets)
         else spliceLoop cfg disabled (i + 1) targets)
      else targets)"
  by pat_completeness auto
termination
  by (relation "measure (\<lambda>(cfg, disabled, i, targets). 2 * length targets - i)") auto

declare spliceLoop.simps [simp del]

text \<open>
  The target set of one pass of \<open>refreshGridOrdersByAnchor\<close> (lines 679 to 732); the last
  test is the read of \<^verbatim>\<open>levels[anchorIndex].price\<close> for the log line.
\<close>

definition buildTargets ::
  "GridConfig \<Rightarrow> GridLevel list \<Rightarrow> int \<Rightarrow> int \<Rightarrow> bool \<Rightarrow> js_error + TargetOrder list" where
  "buildTargets cfg lvls anchorIndex windowSize disabled =
     (case lowerWindow cfg lvls anchorIndex windowSize 1 [] of
        Inl e \<Rightarrow> Inl e
      | Inr targets1 \<Rightarrow>
         (case upperWindow cfg lvls anchorIndex windowSize disabled 1 targets1 of
            Inl e \<Rightarrow> Inl e
          | Inr targets2 \<Rightarrow>
             (let targets3 = spliceLoop cfg disabled 0 targets2 in
              if 0 \<le> anchorIndex \<and> anchorIndex < int (length lvls) then Inr targets3
              else Inl typeError)))"

text \<open>
  The \<^verbatim>\<open>while (retrySync)\<close> loop of \<open>refreshGridOrdersByAnchor\<close>.  The \<open>k\<close>-th call of
  \<open>syncActiveOrders\<close> within one refresh is answered by the gateway \<open>gws k\<close>.
\<close>

partial_function (option) refreshLoop ::
  "(nat \<Rightarrow> gateway) \<Rightarrow> GridContext \<Rightarrow> int \<Rightarrow> nat \<Rightarrow> engine \<Rightarrow> ((js_error + unit) \<times> engine) option"
  where
  [code]: "refreshLoop gws ctx order_window k eng =
     (case anchorIndices eng (getStratKey (symbol (config ctx)) (direction (config ctx))) of
        None \<Rightarrow> Some (Inr (), eng)
      | Some anchorIndex \<Rightarrow>
         (case buildTargets (config ctx) (levels ctx) anchorIndex (windowSizeOf order_window)
                 (isCloseDisabled eng (getStratKey (symbol (config ctx)) (direction (config ctx)))
                    = Some True) of
            Inl e \<Rightarrow> Some (Inl e, eng)
          | Inr targets \<Rightarrow>
             (case syncActiveOrders (gws k) (symbol (config ctx)) (direction (config ctx)) targets
                     (exec eng) of
                (Inl error, ex') \<Rightarrow>
                   if code error = Some ''NO_POSITION''
                   then refreshLoop gws ctx order_window (k + 1)
                          (eng\<lparr> exec := ex',
                               isCloseDisabled := (isCloseDisabled eng)
                                 (getStratKey (symbol (config ctx)) (direction (config ctx))
                                    \<mapsto> True) \<rparr>)
                   else Some (Inl error, eng\<lparr> exec := ex' \<rparr>)
              | (Inr u, ex') \<Rightarrow> Some (Inr (), eng\<lparr> exec := ex' \<rparr>))))"

definition refreshGridOrdersByAnchor ::
  "(nat \<Rightarrow> gateway) \<Rightarrow> GridContext \<Rightarrow> int \<Rightarrow> engine \<Rightarrow> ((js_error + unit) \<times> engine) option" where
  "refreshGridOrdersByAnchor gws ctx order_window eng = refreshLoop gws ctx order_window 0 eng"

subsection \<open>The fill handler (watchOrdersLoop)\<close>

text \<open>The index of whichever bracket level is closer to the price (the upper one on a tie).\<close>

definition closestIndex :: "GridLevel \<times> GridLevel \<Rightarrow> rat \<Rightarrow> int" where
  "closestIndex nearest p =
     (if \<bar>fsub (price (fst nearest)) p\<bar> < \<bar>fsub (price (snd nearest)) p\<bar>
      then index (fst nearest) else index (snd nearest))"

definition isTriggeringStrat :: "RemoteOrder \<Rightarrow> GridConfig \<Rightarrow> bool" where
  "isTriggeringStrat order cfg =
     ((side order = ''buy'' \<and> direction cfg = LONG) \<or>
      (side order = ''sell'' \<and> direction cfg = SHORT))"

text \<open>Lines 845 to 876: the anchor after the profit-protection clamp.\<close>

definition finalAnchorOf :: "GridContext \<Rightarrow> RemoteOrder \<Rightarrow> int \<Rightarrow> int" where
  "finalAnchorOf ctx order newAnchor =
     (if isTriggeringStrat order (config ctx) then
        (case getNearestLevels ctx (oprice order) of
           None \<Rightarrow> newAnchor
         | Some filledNearest \<Rightarrow>
            (let filledIdx = closestIndex filledNearest (oprice order) in
             if tradeSide order = Some ''open'' then
               (if direction (config ctx) = LONG then max newAnchor filledIdx
                else min newAnchor filledIdx)
             else newAnchor))
      else newAnchor)"

text \<open>
  The callback run for each strategy of the order's symbol (lines 829 to 893), given the
  reference price chosen at lines 807 to 824, when no other task runs between its stores
  and the end of its refresh: the \<^verbatim>\<open>await\<close> of line 891 is taken as a call.  What the
  callback stores before that \<^verbatim>\<open>await\<close> is \<open>onFillStore\<close> below, and the runs in which
  other tasks come in between are those of the section on asynchronous refresh tasks.
\<close>

definition onFill ::
  "(nat \<Rightarrow> gateway) \<Rightarrow> GridContext \<Rightarrow> int \<Rightarrow> RemoteOrder \<Rightarrow> rat \<Rightarrow> engine
     \<Rightarrow> ((js_error + unit) \<times> engine) option" where
  "onFill gws ctx order_window order referencePrice eng =
     (let stratKey = getStratKey (symbol (config ctx)) (direction (config ctx)) in
      case getNearestLevels ctx referencePrice of
        None \<Rightarrow> Some (Inr (), eng)
      | Some nearest \<Rightarrow>
         (let newAnchor = closestIndex nearest referencePrice;
              oldAnchor = anchorIndices eng stratKey;
              finalAnchor = finalAnchorOf ctx order newAnchor;
              eng1 = eng\<lparr> anchorIndices := (anchorIndices eng)(stratKey \<mapsto> finalAnchor) \<rparr>
          in if oldAnchor \<noteq> Some newAnchor \<or> isTriggeringStrat order (config ctx) then
               (let eng2 = (if isTriggeringStrat order (config ctx)
                               \<and> isCloseDisabled eng1 stratKey = Some True
                            then eng1\<lparr> isCloseDisabled :=
                                         (isCloseDisabled eng1)(stratKey \<mapsto> False) \<rparr>
                            else eng1)
                in refreshGridOrdersByAnchor gws ctx order_window eng2)
             else Some (Inr (), eng1)))"

text \<open>
  The same callback up to its \<^verbatim>\<open>await\<close> (lines 829 to 890): the engine as the callback
  leaves it when it suspends at line 891, and whether it calls the refresh.  Without a
  bracket for the reference price nothing is stored, which is \<open>None\<close>.
\<close>

definition onFillStore ::
  "GridContext \<Rightarrow> RemoteOrder \<Rightarrow> rat \<Rightarrow> engine \<Rightarrow> (engine \<times> bool) option" where
  "onFillStore ctx order referencePrice eng =
     (let stratKey = getStratKey (symbol (config ctx)) (direction (config ctx)) in
      case getNearestLevels ctx referencePrice of
        None \<Rightarrow> None
      | Some nearest \<Rightarrow>
         (let newAnchor = closestIndex nearest referencePrice;
              oldAnchor = anchorIndices eng stratKey;
              finalAnchor = finalAnchorOf ctx order newAnchor;
              eng1 = eng\<lparr> anchorIndices := (anchorIndices eng)(stratKey \<mapsto> finalAnchor) \<rparr>
          in if oldAnchor \<noteq> Some newAnchor \<or> isTriggeringStrat order (config ctx) then
               Some (if isTriggeringStrat order (config ctx)
                        \<and> isCloseDisabled eng1 stratKey = Some True
                     then eng1\<lparr> isCloseDisabled := (isCloseDisabled eng1)(stratKey \<mapsto> False) \<rparr>
                     else eng1, True)
             else Some (eng1, False)))"

text \<open>Lines 807 to 824: the fill price, or the last traded price when following the market.\<close>

definition referencePriceOf :: "bool \<Rightarrow> js_error + rat \<Rightarrow> RemoteOrder \<Rightarrow> rat" where
  "referencePriceOf follow_market_on_fill ticker order =
     (if follow_market_on_fill then (case ticker of Inr lastPrice \<Rightarrow> lastPrice | Inl e \<Rightarrow> oprice order)
      else oprice order)"

subsection \<open>The drift handler (watchTickerLoop)\<close>

text \<open>Lines 946 to 956: the grid spacing next to the anchor.\<close>

definition currentGridDiffOf :: "GridLevel list \<Rightarrow> int \<Rightarrow> rat" where
  "currentGridDiffOf lvls anchorIdx =
     (if anchorIdx < int (length lvls) - 1
      then fsub (price (lvls ! nat (anchorIdx + 1))) (price (lvls ! nat anchorIdx))
      else if 0 < anchorIdx
      then fsub (price (lvls ! nat anchorIdx)) (price (lvls ! nat (anchorIdx - 1)))
      else fsub (price (lvls ! 1)) (price (lvls ! 0)))"

text \<open>\<^verbatim>\<open>this.lastAnchorResetTime[stratKey] || 0\<close>\<close>

definition lastResetOf :: "engine \<Rightarrow> string \<Rightarrow> int" where
  "lastResetOf eng stratKey = (case lastAnchorResetTime eng stratKey of None \<Rightarrow> 0 | Some t \<Rightarrow> t)"

text \<open>
  One iteration of the \<^verbatim>\<open>while (this.isRunning)\<close> loop of \<open>watchTickerLoop\<close> (lines 925 to
  997) for a ticker whose last price is \<open>currentPrice\<close>, with \<open>now\<close> the value of
  \<^verbatim>\<open>Date.now()\<close> (milliseconds, an integer).  The first component of the result tells
  whether the anchor was reset; an error is what the loop's \<^verbatim>\<open>catch\<close> logs.
\<close>

definition onTicker ::
  "(nat \<Rightarrow> gateway) \<Rightarrow> GridContext \<Rightarrow> int \<Rightarrow> rat \<Rightarrow> int \<Rightarrow> engine
     \<Rightarrow> (bool \<times> (js_error + unit) \<times> engine) option" where
  "onTicker gws ctx order_window currentPrice now eng =
     (let stratKey = getStratKey (symbol (config ctx)) (direction (config ctx));
          lvls = levels ctx in
      case anchorIndices eng stratKey of
        None \<Rightarrow> Some (False, Inr (), eng)
      | Some anchorIdx \<Rightarrow>
         if \<not> (0 \<le> anchorIdx \<and> anchorIdx < int (length lvls)) \<or> length lvls < 2
         then Some (False, Inl typeError, eng)
         else
           (let anchorPrice = price (lvls ! nat anchorIdx);
                currentGridDiff = currentGridDiffOf lvls anchorIdx;
                threshold = fmul currentGridDiff 2 in
            if threshold < \<bar>fsub currentPrice anchorPrice\<bar> then
              (let lastReset = lastResetOf eng stratKey in
               if now - lastReset < 5000 then Some (False, Inr (), eng)
               else
                 (case getNearestLevels ctx currentPrice of
                    None \<Rightarrow> Some (False, Inr (), eng)
                  | Some nearest \<Rightarrow>
                     (let newAnchor = closestIndex nearest currentPrice in
                      if newAnchor \<noteq> anchorIdx then
                        (case refreshGridOrdersByAnchor gws ctx order_window
                                (eng\<lparr> anchorIndices := (anchorIndices eng)(stratKey \<mapsto> newAnchor),
                                      lastAnchorResetTime :=
                                        (lastAnchorResetTime eng)(stratKey \<mapsto> now) \<rparr>) of
                           None \<Rightarrow> None
                         | Some (r, eng') \<Rightarrow> Some (True, r, eng'))
                      else Some (False, Inr (), eng))))
            else Some (False, Inr (), eng)))"

text \<open>Lines 986 and 987: the two stores of a drift reset, made before the refresh is awaited.\<close>

definition driftStore :: "string \<Rightarrow> int \<Rightarrow> int \<Rightarrow> engine \<Rightarrow> engine" where
  "driftStore stratKey newAnchor now eng =
     eng\<lparr> anchorIndices := (anchorIndices eng)(stratKey \<mapsto> newAnchor),
          lastAnchorResetTime := (lastAnchorResetTime eng)(stratKey \<mapsto> now) \<rparr>"

text \<open>
  The events one strategy sees, in the order its handlers run: a ticker update with the
  clock reading taken for it, or a fill with its reference price.  \<open>eventLoop\<close> runs the
  handlers over a finite sequence of events and collects the clock readings of the drift
  resets; the \<open>n\<close>-th event is served by the gateways \<open>gwss n\<close>.
\<close>

datatype event = Ticker rat int | Fill RemoteOrder rat

fun eventLoop ::
  "(nat \<Rightarrow> nat \<Rightarrow> gateway) \<Rightarrow> GridContext \<Rightarrow> int \<Rightarrow> nat \<Rightarrow> event list \<Rightarrow> engine
     \<Rightarrow> (int list \<times> engine) option" where
  "eventLoop gwss ctx order_window n [] eng = Some ([], eng)"
| "eventLoop gwss ctx order_window n (Ticker p now # es) eng =
     (case onTicker (gwss n) ctx order_window p now eng of
        None \<Rightarrow> None
      | Some (fired, r, eng') \<Rightarrow>
         (case eventLoop gwss ctx order_window (n + 1) es eng' of
            None \<Rightarrow> None
          | Some (resets, eng'') \<Rightarrow> Some ((if fired then [now] else []) @ resets, eng'')))"
| "eventLoop gwss ctx order_window n (Fill order referencePrice # es) eng =
     (case onFill (gwss n) ctx order_window order referencePrice eng of
        None \<Rightarrow> None
      | Some (r, eng') \<Rightarrow> eventLoop gwss ctx order_window (n + 1) es eng')"

text \<open>
  The wording of the specification for the spacing used by the drift test: the distance to
  the neighbouring level in the direction of travel, or to the only neighbour at a boundary.
\<close>

definition spec_localSpacing :: "GridLevel list \<Rightarrow> int \<Rightarrow> rat \<Rightarrow> rat" where
  "spec_localSpacing lvls a tickerPrice =
     (let up = fsub (price (lvls ! nat (a + 1))) (price (lvls ! nat a));
          down = fsub (price (lvls ! nat a)) (price (lvls ! nat (a - 1)))
      in if a = 0 then up
         else if a = int (length lvls) - 1 then down
         else if price (lvls ! nat a) < tickerPrice then up else down)"

section \<open>The venue\<close>

text \<open>
  Modelled from the spec: the Exchange Gateway of section 6 is an external collaborator
  (ccxt and the venue behind it), of which the repository holds no code.  The model is a
  venue on which every operation succeeds: its book is the list of open orders,
  \<^verbatim>\<open>cancelOrders\<close> removes the orders with the given ids, \<^verbatim>\<open>createOrders\<close> appends one
  resting order per request, with the requested price and open/close tag, under the next
  unused ids, and \<^verbatim>\<open>fetchOpenOrders\<close> returns the book.
\<close>

definition restingOrder :: "string \<Rightarrow> CreateRequest \<Rightarrow> RemoteOrder" where
  "restingOrder i r =
     \<lparr> oid = i, osymbol = req_symbol r, oprice = req_price r, side = req_side r,
       posSide = Some (if req_side r = ''buy'' then ''long'' else ''short''),
       tradeSide = Some (req_tradeSide r), status = ''open'', filled = 0 \<rparr>"

fun applyCall :: "string list \<Rightarrow> gateway_call \<Rightarrow> RemoteOrder list \<Rightarrow> RemoteOrder list" where
  "applyCall newIds (FetchOpenOrders s) book = book"
| "applyCall newIds (CancelOrders ids s) book = filter (\<lambda>od. oid od \<notin> set ids) book"
| "applyCall newIds (CancelOrder i s) book = filter (\<lambda>od. oid od \<noteq> i) book"
| "applyCall newIds (CreateOrders reqs) book = book @ map2 restingOrder newIds reqs"

definition venueGateway :: "RemoteOrder list \<Rightarrow> string list \<Rightarrow> gateway" where
  "venueGateway book newIds =
     \<lparr> fetchOpenOrders = (\<lambda>s. Inr book),
       cancelOrders = (\<lambda>ids s. Inr ()),
       createOrders = (\<lambda>reqs. Inr (Some (take (length reqs) newIds))) \<rparr>"

text \<open>
  The gateway calls one \<open>syncActiveOrders\<close> issues against the venue, and the book these
  calls leave behind.
\<close>

definition syncCalls ::
  "string \<Rightarrow> GridDirection \<Rightarrow> TargetOrder list \<Rightarrow> string list \<Rightarrow> RemoteOrder list \<Rightarrow> executor
     \<Rightarrow> gateway_call list" where
  "syncCalls symb dir targetLevels newIds book ex =
     issued (snd (syncActiveOrders (venueGateway book newIds) symb dir targetLevels
                    (ex\<lparr> issued := [] \<rparr>)))"

definition bookAfter ::
  "string \<Rightarrow> GridDirection \<Rightarrow> TargetOrder list \<Rightarrow> string list \<Rightarrow> RemoteOrder list \<Rightarrow> executor
     \<Rightarrow> RemoteOrder list" where
  "bookAfter symb dir targetLevels newIds book ex =
     fold (applyCall newIds) (syncCalls symb dir targetLevels newIds book ex) book"

text \<open>
  Two targets clash when an order resting at the price of one matches the other: same
  action, and prices less than \<open>epsilon\<close> apart.
\<close>

definition clash :: "TargetOrder \<Rightarrow> TargetOrder \<Rightarrow> bool" where
  "clash t t' = (\<bar>fsub (tprice t') (tprice t)\<bar> < epsilon \<and> action t' = action t)"

section \<open>Predicates and example data used in the statements\<close>

text \<open>
  Successive drift resets respect the cooldown: each clock reading is at least 5000 ms
  after the previous one, the first after the reset time recorded before the run.
\<close>

fun cooldownRespected :: "int \<Rightarrow> int list \<Rightarrow> bool" where
  "cooldownRespected lastReset [] = True"
| "cooldownRespected lastReset (t # ts) = (5000 \<le> t - lastReset \<and> cooldownRespected t ts)"

text \<open>
  A strategy on the band from 10 to 20 with a spread of one eighth; on a tick of 1 its
  ladder is 10, 11, 13, 14, 16, 18, 20.  All its numbers are dyadic, so every operation
  on them is exact in binary64.
\<close>

definition exampleConfig :: "GridDirection \<Rightarrow> GridConfig" where
  "exampleConfig dir =
     \<lparr> symbol = ''SOL/USDT:USDT'', direction = dir, leverage = 10, upperPrice = 20,
       lowerPrice = 10, gridSpread = 1 / 8, quantityPerGrid = 1 \<rparr>"

definition exampleLevels :: "GridLevel list" where
  "exampleLevels = [mkLevel 0 10, mkLevel 1 11, mkLevel 2 13, mkLevel 3 14, mkLevel 4 16,
                    mkLevel 5 18, mkLevel 6 20]"

definition exampleCtx :: "GridDirection \<Rightarrow> GridContext" where
  "exampleCtx dir = \<lparr> config = exampleConfig dir, levels = exampleLevels \<rparr>"

definition emptyExecutor :: executor where
  "emptyExecutor = \<lparr> localOrderCache = Map.empty, issued = [] \<rparr>"

definition engineAt :: "string \<Rightarrow> int \<Rightarrow> engine" where
  "engineAt stratKey anchor =
     \<lparr> anchorIndices = [stratKey \<mapsto> anchor], lastAnchorResetTime = Map.empty,
       isCloseDisabled = Map.empty, exec = emptyExecutor \<rparr>"

text \<open>Gateways of a venue with an empty book.\<close>

definition idleGateways :: "nat \<Rightarrow> gateway" where
  "idleGateways k = venueGateway [] [''n1'', ''n2'', ''n3'', ''n4'']"

text \<open>A gateway with no open orders whose batch create fails with Bitget's error 22002.\<close>

definition noPositionGateway :: gateway where
  "noPositionGateway =
     \<lparr> fetchOpenOrders = (\<lambda>s. Inr []),
       cancelOrders = (\<lambda>ids s. Inr ()),
       createOrders = (\<lambda>reqs. Inl \<lparr> message = ''bitget 22002 No position to close'',
                                     code = None \<rparr>) \<rparr>"

definition closeTarget :: TargetOrder where
  "closeTarget = \<lparr> tprice = 100, amount = 1, action = Close \<rparr>"

text \<open>A buy fill tagged \<open>open\<close> at the price of level 4.\<close>

definition openFillAt16 :: RemoteOrder where
  "openFillAt16 =
     \<lparr> oid = ''f1'', osymbol = ''SOL/USDT:USDT'', oprice = 16, side = ''buy'',
       posSide = Some ''long'', tradeSide = Some ''open'', status = ''filled'', filled = 1 \<rparr>"

text \<open>
  The running (pre-round) price of \<open>calculateLevels\<close> after \<open>k\<close> iterations, and the ladder
  whose level \<open>k\<close> is that price rounded to the tick, for \<open>k\<close> up to \<open>n\<close>.
\<close>

definition rawPrice :: "GridConfig \<Rightarrow> nat \<Rightarrow> rat" where
  "rawPrice cfg k = ((\<lambda>c. fmul c (fadd 1 (gridSpread cfg))) ^^ k) (lowerPrice cfg)"






definition invertedConfig :: GridConfig where
  "invertedConfig =
     \<lparr> symbol = ''SOL/USDT:USDT'', direction = LONG, leverage = 10, upperPrice = 90,
       lowerPrice = 100, gridSpread = - (1 / 2), quantityPerGrid = 1 \<rparr>"

definition flatConfig :: GridConfig where
  "flatConfig =
     \<lparr> symbol = ''SOL/USDT:USDT'', direction = LONG, leverage = 10, upperPrice = 801 / 8,
       lowerPrice = 100, gridSpread = 1 / 512, quantityPerGrid = 1 \<rparr>"

section \<open>Binary64 with its exponent range\<close>

text \<open>
  The rounding of IEEE-754 binary64 itself, to the nearest value with ties to even.  The
  spacing of the doubles around \<open>x\<close> is \<open>2\<^sup>e\<^sup>-\<^sup>5\<^sup>2\<close> for the binary exponent \<open>e\<close> of \<open>x\<close>,
  and \<open>2\<^sup>-\<^sup>1\<^sup>0\<^sup>7\<^sup>4\<close> below \<open>2\<^sup>-\<^sup>1\<^sup>0\<^sup>2\<^sup>2\<close>, where the doubles are subnormal; a result above
  the largest double overflows to \<^verbatim>\<open>Infinity\<close>, which is \<open>None\<close>.  A double is a number that
  this rounding leaves alone, and an exact result on which it returns what \<open>dbl\<close> returns
  is one for which the operation of the model is the operation of the code (\<open>agree\<close>).
\<close>

definition minNormal :: rat where
  "minNormal = 2 powi (- 1022)"





text \<open>Numbers between two powers of two, and the range of prices, spreads and ticks
  for which the ladder is studied: from \<open>2\<^sup>-\<^sup>2\<^sup>0\<^sup>0\<close> to \<open>2\<^sup>2\<^sup>0\<^sup>0\<close>.\<close>

definition between :: "int \<Rightarrow> int \<Rightarrow> rat \<Rightarrow> bool" where
  "between a b x = (2 powi a \<le> x \<and> x \<le> 2 powi b)"




text \<open>The executor as one \<open>syncActiveOrders\<close> against the venue leaves it.\<close>

definition executorAfter ::
  "string \<Rightarrow> GridDirection \<Rightarrow> TargetOrder list \<Rightarrow> string list \<Rightarrow> RemoteOrder list \<Rightarrow> executor
     \<Rightarrow> executor" where
  "executorAfter symb dir targetLevels newIds book ex =
     snd (syncActiveOrders (venueGateway book newIds) symb dir targetLevels ex)"

text \<open>
  A ladder whose first three levels share the price 100 (a spread below the tick), and the
  targets a LONG strategy builds on it at anchor 2 with a window of 2: two equal open
  targets at 100, and a close target at 101.
\<close>

definition flatLevels :: "GridLevel list" where
  "flatLevels = [mkLevel 0 100, mkLevel 1 100, mkLevel 2 100, mkLevel 3 101]"

definition dupTargets :: "TargetOrder list" where
  "dupTargets = [\<lparr> tprice = 100, amount = 1, action = Open \<rparr>,
                 \<lparr> tprice = 100, amount = 1, action = Open \<rparr>,
                 \<lparr> tprice = 101, amount = 1, action = Close \<rparr>]"

definition restingAt :: "string \<Rightarrow> rat \<Rightarrow> string \<Rightarrow> RemoteOrder" where
  "restingAt i p ts =
     \<lparr> oid = i, osymbol = ''SOL/USDT:USDT'', oprice = p, side = ''buy'',
       posSide = Some ''long'', tradeSide = Some ts, status = ''open'', filled = 0 \<rparr>"

text \<open>A book with one order to keep and one to cancel, and two targets that do not clash.\<close>

definition exampleBook :: "RemoteOrder list" where
  "exampleBook = [restingAt ''k1'' 100 ''open'', restingAt ''d1'' 95 ''open'']"

definition exampleTargets :: "TargetOrder list" where
  "exampleTargets = [\<lparr> tprice = 100, amount = 1, action = Open \<rparr>,
                     \<lparr> tprice = 101, amount = 1, action = Close \<rparr>]"















definition metaLine :: "js_runtime \<Rightarrow> GridConfig \<Rightarrow> string" where
  "metaLine rt cfg = ''# config:'' @ numToString rt (upperPrice cfg) @ comma #
                     (numToString rt (lowerPrice cfg) @ comma # numToString rt (gridSpread cfg))"




section \<open>Asynchronous refresh tasks and the strategy locks\<close>

text \<open>
  \<open>refreshGridOrdersByAnchor\<close> is an \<^verbatim>\<open>async\<close> method: a call runs until its next
  \<^verbatim>\<open>await\<close>, then other handlers run, and it continues when the awaited promise has
  settled.  It awaits twice: \<^verbatim>\<open>getLock(stratKey).acquire()\<close> and, inside the loop,
  \<^verbatim>\<open>syncActiveOrders\<close>.  The model cuts the method at these two points and lets the
  runtime run the pieces of any number of calls in any order.

  \<^verbatim>\<open>Mutex\<close> comes from the package \<^verbatim>\<open>async-mutex\<close>, which is not part of the repository.
  It is modelled from the package's description: \<^verbatim>\<open>acquire\<close> takes a free mutex at once,
  and otherwise queues the caller; the release function passes the mutex on to the first
  caller in the queue, and frees it when the queue is empty.
\<close>

record mutex =
  isLocked :: bool
  waiters :: "nat list"

definition newMutex :: mutex where
  "newMutex = \<lparr> isLocked = False, waiters = [] \<rparr>"

text \<open>Who called the refresh, and where a call stands.\<close>

datatype trigger = ByStart | ByFill | ByDrift

datatype pc =
    AwaitingLock
  | LockGranted
  | InSync "TargetOrder list"
  | Returned
  | Threw

record task =
  taskCtx :: GridContext
  taskTrigger :: trigger
  taskPc :: pc

record async_state =
  asyncEngine :: engine
  stratLocks :: "string \<rightharpoonup> mutex"
  asyncTasks :: "task list"

definition keyOf :: "GridContext \<Rightarrow> string" where
  "keyOf c = getStratKey (symbol (config c)) (direction (config c))"

text \<open>\<open>getLock\<close>: the lock of the key, created on first use.\<close>

definition getLock :: "string \<Rightarrow> (string \<rightharpoonup> mutex) \<Rightarrow> mutex \<times> (string \<rightharpoonup> mutex)" where
  "getLock stratKey locks =
     (case locks stratKey of
        None \<Rightarrow> (newMutex, locks(stratKey \<mapsto> newMutex))
      | Some m \<Rightarrow> (m, locks))"

text \<open>
  A call of \<open>refreshGridOrdersByAnchor\<close> up to \<^verbatim>\<open>await this.getLock(stratKey).acquire()\<close>.
  The new task is the last of the list; its number is its position.
\<close>

definition invoke :: "trigger \<Rightarrow> GridContext \<Rightarrow> async_state \<Rightarrow> async_state" where
  "invoke tr c s =
     (let stratKey = keyOf c;
          (m, locks) = getLock stratKey (stratLocks s);
          i = length (asyncTasks s)
      in if isLocked m
         then s\<lparr> stratLocks := locks(stratKey \<mapsto> m\<lparr> waiters := waiters m @ [i] \<rparr>),
                 asyncTasks := asyncTasks s @
                   [\<lparr> taskCtx = c, taskTrigger = tr, taskPc = AwaitingLock \<rparr>] \<rparr>
         else s\<lparr> stratLocks := locks(stratKey \<mapsto> m\<lparr> isLocked := True \<rparr>),
                 asyncTasks := asyncTasks s @
                   [\<lparr> taskCtx = c, taskTrigger = tr, taskPc = LockGranted \<rparr>] \<rparr>)"

definition setPc :: "nat \<Rightarrow> pc \<Rightarrow> async_state \<Rightarrow> async_state" where
  "setPc i p s = s\<lparr> asyncTasks := (asyncTasks s)[i := (asyncTasks s ! i)\<lparr> taskPc := p \<rparr>] \<rparr>"

text \<open>\<^verbatim>\<open>release()\<close> on the lock of a key.\<close>

definition release :: "string \<Rightarrow> async_state \<Rightarrow> async_state" where
  "release stratKey s =
     (case stratLocks s stratKey of
        None \<Rightarrow> s
      | Some m \<Rightarrow>
         (case waiters m of
            [] \<Rightarrow> s\<lparr> stratLocks := (stratLocks s)(stratKey \<mapsto> m\<lparr> isLocked := False \<rparr>) \<rparr>
          | j # q \<Rightarrow>
             setPc j LockGranted
               (s\<lparr> stratLocks := (stratLocks s)(stratKey \<mapsto> m\<lparr> waiters := q \<rparr>) \<rparr>)))"

text \<open>Leaving the \<^verbatim>\<open>try\<close>: the \<^verbatim>\<open>finally\<close> block releases the lock, whether the call
  returns or throws.\<close>

definition finish :: "nat \<Rightarrow> pc \<Rightarrow> async_state \<Rightarrow> async_state" where
  "finish i p s = release (keyOf (taskCtx (asyncTasks s ! i))) (setPc i p s)"

text \<open>
  One round of \<^verbatim>\<open>while (retrySync)\<close>, from its top to \<^verbatim>\<open>await syncActiveOrders\<close>, or
  out of the loop: on an undefined anchor it breaks, and a level outside the array throws.
\<close>

definition loopBody :: "int \<Rightarrow> nat \<Rightarrow> async_state \<Rightarrow> async_state" where
  "loopBody order_window i s =
     (let c = taskCtx (asyncTasks s ! i); stratKey = keyOf c in
      case anchorIndices (asyncEngine s) stratKey of
        None \<Rightarrow> finish i Returned s
      | Some anchorIndex \<Rightarrow>
         (case buildTargets (config c) (levels c) anchorIndex (windowSizeOf order_window)
                 (isCloseDisabled (asyncEngine s) stratKey = Some True) of
            Inl e \<Rightarrow> finish i Threw s
          | Inr targets \<Rightarrow> setPc i (InSync targets) s))"

text \<open>
  The awaited \<open>syncActiveOrders\<close> of task \<open>i\<close> settles, having talked to the gateway \<open>gw\<close>:
  on \<^verbatim>\<open>NO_POSITION\<close> the close orders are disabled and the loop goes round again, any
  other error leaves the method, and a normal return ends the loop.
\<close>

definition settle :: "int \<Rightarrow> nat \<Rightarrow> gateway \<Rightarrow> async_state \<Rightarrow> async_state" where
  "settle order_window i gw s =
     (if i < length (asyncTasks s) then
        (case taskPc (asyncTasks s ! i) of
           InSync targets \<Rightarrow>
             (let c = taskCtx (asyncTasks s ! i); stratKey = keyOf c; eng = asyncEngine s in
              case syncActiveOrders gw (symbol (config c)) (direction (config c)) targets
                     (exec eng) of
                (Inl error, ex') \<Rightarrow>
                   if code error = Some ''NO_POSITION''
                   then loopBody order_window i
                          (s\<lparr> asyncEngine := eng\<lparr> exec := ex',
                                 isCloseDisabled := (isCloseDisabled eng)(stratKey \<mapsto> True) \<rparr> \<rparr>)
                   else finish i Threw (s\<lparr> asyncEngine := eng\<lparr> exec := ex' \<rparr> \<rparr>)
              | (Inr u, ex') \<Rightarrow> finish i Returned (s\<lparr> asyncEngine := eng\<lparr> exec := ex' \<rparr> \<rparr>))
         | _ \<Rightarrow> s)
      else s)"

text \<open>The task \<open>i\<close> continues after its \<^verbatim>\<open>acquire\<close> has resolved.\<close>

definition resume :: "int \<Rightarrow> nat \<Rightarrow> async_state \<Rightarrow> async_state" where
  "resume order_window i s =
     (if i < length (asyncTasks s) \<and> taskPc (asyncTasks s ! i) = LockGranted
      then loopBody order_window i s else s)"

text \<open>
  What the runtime does next: a handler calls the refresh, a handler writes the engine's
  fields (the anchor, the reset time, the close flag), a task holding the lock continues,
  or a sync settles.  An event that cannot happen in the state changes nothing.
\<close>

datatype async_event =
    Invoke trigger GridContext
  | Write "engine \<Rightarrow> engine"
  | Resume nat
  | Settle nat gateway

fun asyncStep :: "int \<Rightarrow> async_state \<Rightarrow> async_event \<Rightarrow> async_state" where
  "asyncStep order_window s (Invoke tr c) = invoke tr c s"
| "asyncStep order_window s (Write f) = s\<lparr> asyncEngine := f (asyncEngine s) \<rparr>"
| "asyncStep order_window s (Resume i) = resume order_window i s"
| "asyncStep order_window s (Settle i gw) = settle order_window i gw s"

definition asyncRun :: "int \<Rightarrow> async_event list \<Rightarrow> async_state \<Rightarrow> async_state" where
  "asyncRun order_window events s = foldl (asyncStep order_window) s events"

definition asyncStart :: "engine \<Rightarrow> async_state" where
  "asyncStart eng = \<lparr> asyncEngine = eng, stratLocks = Map.empty, asyncTasks = [] \<rparr>"

text \<open>
  A task holds the lock of its key from the moment the lock is granted to it until its
  \<^verbatim>\<open>finally\<close> block; its sync is in flight while it awaits \<open>syncActiveOrders\<close>.
\<close>

fun holdsLock :: "pc \<Rightarrow> bool" where
  "holdsLock LockGranted = True"
| "holdsLock (InSync targets) = True"
| "holdsLock p = False"

fun syncing :: "pc \<Rightarrow> bool" where
  "syncing (InSync targets) = True"
| "syncing p = False"

definition holders :: "string \<Rightarrow> async_state \<Rightarrow> task list" where
  "holders stratKey s =
     filter (\<lambda>t. keyOf (taskCtx t) = stratKey \<and> holdsLock (taskPc t)) (asyncTasks s)"

definition inFlight :: "string \<Rightarrow> async_state \<Rightarrow> task list" where
  "inFlight stratKey s =
     filter (\<lambda>t. keyOf (taskCtx t) = stratKey \<and> syncing (taskPc t)) (asyncTasks s)"

text \<open>A fill and a drift of the LONG example strategy calling the refresh at the same time.\<close>

definition exampleKey :: string where
  "exampleKey = ''SOL/USDT:USDT_LONG''"

definition twoTriggers :: "async_event list" where
  "twoTriggers = [Invoke ByFill (exampleCtx LONG), Invoke ByDrift (exampleCtx LONG), Resume 0]"

text \<open>
  The state of the lock of a key: it is held exactly when one task of the key holds it,
  and its queue lists, once each, tasks of the key that await it.  \<open>releasable\<close> is the
  state between the end of the holder and the release.
\<close>

definition lockInv :: "string \<Rightarrow> async_state \<Rightarrow> bool" where
  "lockInv k s =
     (case stratLocks s k of
        None \<Rightarrow> holders k s = []
      | Some m \<Rightarrow>
          length (holders k s) = (if isLocked m then 1 else 0) \<and> distinct (waiters m) \<and>
          (\<forall>j \<in> set (waiters m). j < length (asyncTasks s) \<and>
             keyOf (taskCtx (asyncTasks s ! j)) = k \<and> taskPc (asyncTasks s ! j) = AwaitingLock))"

definition releasable :: "string \<Rightarrow> async_state \<Rightarrow> bool" where
  "releasable k s =
     (case stratLocks s k of
        None \<Rightarrow> False
      | Some m \<Rightarrow>
          isLocked m \<and> holders k s = [] \<and> distinct (waiters m) \<and>
          (\<forall>j \<in> set (waiters m). j < length (asyncTasks s) \<and>
             keyOf (taskCtx (asyncTasks s ! j)) = k \<and> taskPc (asyncTasks s ! j) = AwaitingLock))"

text \<open>The engine of the LONG example strategy with the anchor at level 5 and close disabled.\<close>

definition closeDisabledEngine :: engine where
  "closeDisabledEngine =
     (engineAt exampleKey 5)\<lparr> isCloseDisabled := [exampleKey \<mapsto> True] \<rparr>"


text \<open>
  What the fill callback stores, as a write to the engine; and a run in which the fill of
  the example is followed by a drift reset to level 1 while the sync of the fill's refresh
  is in flight (a ticker at 11.4 at time 6000: the anchor is level 4 at 16, the spacing
  is 2, and 11.4 is nearest to level 1).
\<close>

definition fillWrite :: "GridContext \<Rightarrow> RemoteOrder \<Rightarrow> rat \<Rightarrow> engine \<Rightarrow> engine" where
  "fillWrite ctx order referencePrice eng =
     (case onFillStore ctx order referencePrice eng of
        None \<Rightarrow> eng
      | Some (eng1, called) \<Rightarrow> eng1)"

definition fillThenDrift :: "async_event list" where
  "fillThenDrift =
     [Write (fillWrite (exampleCtx LONG) openFillAt16 (57 / 4)), Invoke ByFill (exampleCtx LONG),
      Resume 0,
      Write (driftStore exampleKey 1 6000), Invoke ByDrift (exampleCtx LONG),
      Settle 0 (idleGateways 0)]"

section \<open>Rounding to binary64\<close>

subsection \<open>The binary exponent\<close>

lemma powi_bitlen:
  assumes "0 < (p::int)"
  shows "(2::rat) powi (bitlen p - 1) \<le> of_int p" and "of_int p < (2::rat) powi (bitlen p)"
proof -
  have b: "2 ^ nat (bitlen p - 1) \<le> p" "p < 2 ^ nat (bitlen p)"
    using bitlen_bounds[OF assms] by auto
  have ge1: "1 \<le> bitlen p"
    using assms by (simp add: bitlen_alt_def)
  have "(2::rat) powi (bitlen p - 1) = 2 ^ nat (bitlen p - 1)"
    using ge1 by (simp add: power_int_def)
  also have "\<dots> = of_int (2 ^ nat (bitlen p - 1))" by simp
  also have "\<dots> \<le> of_int p" using b(1) by (simp only: of_int_le_iff)
  finally show "(2::rat) powi (bitlen p - 1) \<le> of_int p" .
  have "(of_int p :: rat) < of_int (2 ^ nat (bitlen p))"
    using b(2) by (simp only: of_int_less_iff)
  also have "\<dots> = 2 powi (bitlen p)"
    using ge1 by (simp add: power_int_def)
  finally show "of_int p < (2::rat) powi (bitlen p)" .
qed

lemma ilog2_bounds:
  assumes "0 < x"
  shows "2 powi (ilog2 x) \<le> x" and "x < 2 powi (ilog2 x + 1)"
proof -
  obtain p q where pq: "quotient_of x = (p, q)" by (cases "quotient_of x")
  have q: "0 < q" using pq by (rule quotient_of_denom_pos)
  have x: "x = of_int p / of_int q" using pq by (rule quotient_of_div)
  have p: "0 < p"
    using assms q by (simp add: x zero_less_divide_iff)
  let ?d = "bitlen p - bitlen q"
  have qpos: "(0::rat) < of_int q" using q by simp
  have lo: "(2::rat) powi (?d - 1) < x"
  proof -
    have "(2::rat) powi (?d - 1) * of_int q < 2 powi (?d - 1) * 2 powi (bitlen q)"
      using powi_bitlen(2)[OF q] by (simp add: mult_strict_left_mono)
    also have "\<dots> = 2 powi (bitlen p - 1)"
      by (simp flip: power_int_add)
    also have "\<dots> \<le> of_int p" by (rule powi_bitlen(1)[OF p])
    finally show ?thesis using qpos by (simp add: x pos_less_divide_eq)
  qed
  have hi: "x < (2::rat) powi (?d + 1)"
  proof -
    have "(of_int p :: rat) < 2 powi (bitlen p)" by (rule powi_bitlen(2)[OF p])
    also have "\<dots> = 2 powi (?d + 1) * 2 powi (bitlen q - 1)"
      by (simp flip: power_int_add)
    also have "\<dots> \<le> 2 powi (?d + 1) * of_int q"
      using powi_bitlen(1)[OF q] by (simp add: mult_left_mono)
    finally show ?thesis using qpos by (simp add: x pos_divide_less_eq)
  qed
  have e: "ilog2 x = (if 2 powi ?d \<le> x then ?d else ?d - 1)"
    by (simp add: ilog2_def pq Let_def)
  show "2 powi (ilog2 x) \<le> x"
    using lo by (simp add: e)
  show "x < 2 powi (ilog2 x + 1)"
    using hi by (auto simp: e)
qed

lemma powi2_less_imp: "(2::rat) powi a < 2 powi b \<Longrightarrow> a < b"
  using power_int_increasing[of b a "2::rat"] by (cases "a < b") auto



lemma rhe_cases:
  "round_half_even x = \<lfloor>x\<rfloor> \<or> round_half_even x = \<lfloor>x\<rfloor> + 1"
  by (simp add: round_half_even_def Let_def)


lemma rhe_of_int [simp]: "round_half_even (of_int k) = k"
  by (simp add: round_half_even_def Let_def)

lemma rhe_mono:
  assumes "x \<le> y"
  shows "round_half_even x \<le> round_half_even y"
proof -
  have fl: "\<lfloor>x\<rfloor> \<le> \<lfloor>y\<rfloor>" using assms by (rule floor_mono)
  show ?thesis
  proof (cases "\<lfloor>x\<rfloor> = \<lfloor>y\<rfloor>")
    case True
    then show ?thesis
      using assms by (auto simp: round_half_even_def Let_def)
  next
    case False
    then have "\<lfloor>x\<rfloor> + 1 \<le> \<lfloor>y\<rfloor>" using fl by simp
    moreover have "round_half_even x \<le> \<lfloor>x\<rfloor> + 1" using rhe_cases[of x] by auto
    moreover have "\<lfloor>y\<rfloor> \<le> round_half_even y" using rhe_cases[of y] by auto
    ultimately show ?thesis by linarith
  qed
qed

lemma rhe_ge: "of_int a \<le> x \<Longrightarrow> a \<le> round_half_even x"
  using rhe_mono[of "of_int a" x] by simp

lemma rhe_le: "x \<le> of_int b \<Longrightarrow> round_half_even x \<le> b"
  using rhe_mono[of x "of_int b"] by simp

lemma ulp_pos: "0 < (2::rat) powi k"
  by simp

lemma pow_powi: "(2::rat) ^ n * 2 powi k = 2 powi (k + int n)"
  by (simp add: power_int_add mult.commute)

lemma scaled_bounds:
  assumes "0 < x"
  shows "(2::rat) ^ 52 \<le> x / 2 powi (ilog2 x - 52)" and "x / 2 powi (ilog2 x - 52) < 2 ^ 53"
proof -
  let ?e = "ilog2 x"
  have u: "(0::rat) < 2 powi (?e - 52)" by simp
  have "(2::rat) ^ 52 * 2 powi (?e - 52) = 2 powi ?e"
    using pow_powi[of 52 "?e - 52"] by simp
  also have "\<dots> \<le> x" by (rule ilog2_bounds(1)[OF assms])
  finally show "(2::rat) ^ 52 \<le> x / 2 powi (?e - 52)"
    using u by (simp add: pos_le_divide_eq)
  have "x < 2 powi (?e + 1)" by (rule ilog2_bounds(2)[OF assms])
  also have "\<dots> = 2 ^ 53 * 2 powi (?e - 52)"
    using pow_powi[of 53 "?e - 52"] by (simp add: add.commute)
  finally show "x / 2 powi (?e - 52) < 2 ^ 53"
    using u by (simp add: pos_divide_less_eq)
qed



lemma dbl_pos_range:
  assumes "0 < x"
  shows "2 powi (ilog2 x) \<le> dbl_pos x" and "dbl_pos x \<le> 2 powi (ilog2 x + 1)"
proof -
  let ?u = "(2::rat) powi (ilog2 x - 52)"
  have u: "0 < ?u" by simp
  have "(of_int (2 ^ 52) :: rat) \<le> x / ?u" using scaled_bounds(1)[OF assms] by simp
  then have "2 ^ 52 \<le> round_half_even (x / ?u)" by (rule rhe_ge)
  then have "(2::rat) ^ 52 \<le> of_int (round_half_even (x / ?u))"
    by (metis of_int_le_iff of_int_numeral of_int_power)
  then have "(2::rat) ^ 52 * ?u \<le> dbl_pos x"
    using u by (simp add: dbl_pos_def Let_def)
  moreover have "(2::rat) ^ 52 * ?u = 2 powi (ilog2 x)"
    using pow_powi[of 52 "ilog2 x - 52"] by simp
  ultimately show "2 powi (ilog2 x) \<le> dbl_pos x" by simp
  have "x / ?u \<le> (of_int (2 ^ 53) :: rat)" using scaled_bounds(2)[OF assms] by simp
  then have "round_half_even (x / ?u) \<le> 2 ^ 53" by (rule rhe_le)
  then have "of_int (round_half_even (x / ?u)) \<le> (2::rat) ^ 53"
    by (metis of_int_le_iff of_int_numeral of_int_power)
  then have "dbl_pos x \<le> (2::rat) ^ 53 * ?u"
    using u by (simp add: dbl_pos_def Let_def)
  moreover have "(2::rat) ^ 53 * ?u = 2 powi (ilog2 x + 1)"
    using pow_powi[of 53 "ilog2 x - 52"] by (simp add: add.commute)
  ultimately show "dbl_pos x \<le> 2 powi (ilog2 x + 1)" by simp
qed

lemma dbl_pos_pos: "0 < x \<Longrightarrow> 0 < dbl_pos x"
  using dbl_pos_range(1)[of x] ulp_pos[of "ilog2 x"] by linarith

subsection \<open>Sign, error, monotonicity and exactness of the rounding\<close>

lemma dbl_0 [simp]: "dbl 0 = 0"
  by (simp add: dbl_def)

lemma dbl_pos_eq: "0 < x \<Longrightarrow> dbl x = dbl_pos x"
  by (simp add: dbl_def)

lemma dbl_minus: "dbl (- x) = - dbl x"
  by (simp add: dbl_def)

lemma dbl_gt0: "0 < x \<Longrightarrow> 0 < dbl x"
  by (simp add: dbl_pos_eq dbl_pos_pos)






lemma dbl_pos_exact:
  assumes m: "0 < m" "m < 2 ^ 53"
  shows "dbl_pos (of_int m * 2 powi k) = of_int m * 2 powi k"
proof -
  let ?x = "of_int m * (2::rat) powi k"
  have x: "0 < ?x" using m by simp
  let ?e = "ilog2 ?x"
  have "(2::rat) powi ?e \<le> ?x" by (rule ilog2_bounds(1)[OF x])
  also have "?x < 2 ^ 53 * 2 powi k"
  proof -
    have "(of_int m :: rat) < of_int (2 ^ 53)" using m(2) by (simp only: of_int_less_iff)
    then show ?thesis by (simp add: mult_strict_right_mono)
  qed
  also have "\<dots> = 2 powi (k + 53)" using pow_powi[of 53 k] by simp
  finally have "?e < k + 53" by (rule powi2_less_imp)
  then have n: "0 \<le> k - ?e + 52" by simp
  have "?x / 2 powi (?e - 52) = of_int m * (2 powi k / 2 powi (?e - 52))" by simp
  also have "2 powi k / (2::rat) powi (?e - 52) = 2 powi (k - ?e + 52)"
  proof -
    have "2 powi k / (2::rat) powi (?e - 52) = 2 powi (k - (?e - 52))"
      by (simp add: power_int_diff)
    moreover have "k - (?e - 52) = k - ?e + 52" by simp
    ultimately show ?thesis by (simp only:)
  qed
  also have "\<dots> = of_int (2 ^ nat (k - ?e + 52))"
    using n by (simp add: power_int_def)
  finally have "?x / 2 powi (?e - 52) = of_int (m * 2 ^ nat (k - ?e + 52))" by simp
  then have "of_int (round_half_even (?x / 2 powi (?e - 52))) = ?x / 2 powi (?e - 52)"
    by (simp only: rhe_of_int)
  then show ?thesis by (simp add: dbl_pos_def Let_def)
qed

lemma dbl_exact:
  assumes "\<bar>m\<bar> < 2 ^ 53"
  shows "dbl (of_int m * 2 powi k) = of_int m * 2 powi k"
proof -
  consider "m = 0" | "0 < m" | "m < 0" by linarith
  then show ?thesis
  proof cases
    case 1
    then show ?thesis by simp
  next
    case 2
    then have "0 < of_int m * (2::rat) powi k" by simp
    then show ?thesis using dbl_pos_exact[of m k] 2 assms by (simp add: dbl_pos_eq)
  next
    case 3
    then have "dbl_pos (of_int (- m) * 2 powi k) = of_int (- m) * 2 powi k"
      using assms by (intro dbl_pos_exact) auto
    moreover have "of_int m * (2::rat) powi k < 0" using 3 by (simp add: mult_neg_pos)
    ultimately show ?thesis by (simp add: dbl_def)
  qed
qed

lemma dbl_of_int: "\<bar>m\<bar> < 2 ^ 53 \<Longrightarrow> dbl (of_int m) = of_int m"
  using dbl_exact[of m 0] by simp


lemma dbl_2 [simp]: "dbl 2 = 2"
  using dbl_of_int[of 2] by simp




section \<open>The order executor\<close>

lemma str_includes_22002: "str_includes ''bitget 22002 No position to close'' ''22002''"
  by simp

text \<open>
  Claim C1 (the code departs from it).  When the batch create fails with a no-position
  message, the \<^verbatim>\<open>try\<close> block of \<open>syncActiveOrders\<close> does throw the error coded
  \<^verbatim>\<open>NO_POSITION\<close>, but the function's own outer \<^verbatim>\<open>catch\<close> swallows it: the call returns
  normally and nothing reaches the caller.
\<close>

theorem syncActiveOrders_swallows_NO_POSITION:
  "fst (syncTry noPositionGateway ''BTC'' LONG [closeTarget] emptyExecutor)
     = Inl \<lparr> message = ''bitget 22002 No position to close'', code = Some ''NO_POSITION'' \<rparr>
   \<and> fst (syncActiveOrders noPositionGateway ''BTC'' LONG [closeTarget] emptyExecutor) = Inr ()"
proof -
  have t: "fst (syncTry noPositionGateway ''BTC'' LONG [closeTarget] emptyExecutor)
     = Inl \<lparr> message = ''bitget 22002 No position to close'', code = Some ''NO_POSITION'' \<rparr>"
    using str_includes_22002
    by (simp add: syncTry_def noPositionGateway_def closeTarget_def emptyExecutor_def
        createStep_def cancelStep_def call_def isNoPosition_def Let_def getCacheKey_def
        del: str_includes.simps)
  then show ?thesis
    by (simp add: syncActiveOrders_def split: prod.splits sum.splits)
qed

section \<open>The target set of a refresh\<close>

lemma spliceLoop_filter:
  "spliceLoop cfg disabled i targets =
     take i targets @
       filter (\<lambda>t. \<not> (direction cfg = SHORT \<and> action t = Close \<and> disabled)) (drop i targets)"
proof (induction cfg disabled i targets rule: spliceLoop.induct)
  case (1 cfg disabled i targets)
  show ?case
  proof (cases "i < length targets")
    case False
    then show ?thesis by (subst spliceLoop.simps) simp
  next
    case True
    note lt = True
    have d: "drop i targets = targets ! i # drop (Suc i) targets"
      using lt by (simp add: Cons_nth_drop_Suc)
    have t: "take (Suc i) targets = take i targets @ [targets ! i]"
      using lt by (simp add: take_Suc_conv_app_nth)
    show ?thesis
    proof (cases "direction cfg = SHORT \<and> action (targets ! i) = Close")
      case False
      with lt 1(3) show ?thesis
        by (subst spliceLoop.simps) (auto simp: d t)
    next
      case True
      note sc = True
      show ?thesis
      proof (cases disabled)
        case True
        have "spliceLoop cfg disabled i targets
                = spliceLoop cfg disabled i (take i targets @ drop (i + 1) targets)"
          using lt sc True by (subst spliceLoop.simps) simp
        also have "\<dots> = take i (take i targets @ drop (i + 1) targets) @
            filter (\<lambda>t. \<not> (direction cfg = SHORT \<and> action t = Close \<and> disabled))
               (drop i (take i targets @ drop (i + 1) targets))"
          using 1(1)[OF lt sc True] .
        also have "\<dots> = take i targets @
            filter (\<lambda>t. \<not> (direction cfg = SHORT \<and> action t = Close \<and> disabled))
               (drop i targets)"
          using lt sc True by (simp add: d min_def)
        finally show ?thesis .
      next
        case False
        with lt sc 1(2) show ?thesis
          by (subst spliceLoop.simps) (auto simp: d t)
      qed
    qed
  qed
qed

lemma example_targets:
  assumes "direction cfg = LONG" and "7 \<le> length lvls"
  shows "buildTargets cfg lvls 5 1 False =
           Inr [\<lparr> tprice = price (lvls ! 4), amount = quantityPerGrid cfg, action = Open \<rparr>,
                \<lparr> tprice = price (lvls ! 6), amount = quantityPerGrid cfg, action = Close \<rparr>]"
    and "buildTargets cfg lvls 5 1 True =
           Inr [\<lparr> tprice = price (lvls ! 4), amount = quantityPerGrid cfg, action = Open \<rparr>]"
  using assms
  by (simp_all add: buildTargets_def lowerWindow.simps upperWindow.simps spliceLoop.simps Let_def)

lemma lowerWindow_result:
  assumes "a < int (length lvls)"
  shows "0 \<le> i \<Longrightarrow>
         \<exists>new. (\<forall>t \<in> set new. action t = (if direction cfg = LONG then Open else Close)) \<and>
               (\<forall>ts. lowerWindow cfg lvls a w i ts = Inr (ts @ new))"
proof (induction "nat (w + 1 - i)" arbitrary: i)
  case 0
  then have "\<not> i \<le> w" by simp
  then have "\<forall>ts. lowerWindow cfg lvls a w i ts = Inr (ts @ [])"
    by (subst lowerWindow.simps) simp
  then show ?case by (intro exI[of _ "[]"]) simp
next
  case (Suc n)
  then have iw: "i \<le> w" by simp
  show ?case
  proof (cases "a - i < 0")
    case True
    then have "\<forall>ts. lowerWindow cfg lvls a w i ts = Inr (ts @ [])"
      using iw by (subst lowerWindow.simps) (simp add: Let_def)
    then show ?thesis by (intro exI[of _ "[]"]) simp
  next
    case False
    let ?t = "\<lparr> tprice = price (lvls ! nat (a - i)), amount = quantityPerGrid cfg,
                  action = (if direction cfg = LONG then Open else Close) \<rparr>"
    have n: "n = nat (w + 1 - (i + 1))" using Suc(2) by simp
    have "0 \<le> i + 1" using Suc.prems by simp
    from Suc(1)[OF n this] obtain new where
      new: "\<forall>t \<in> set new. action t = (if direction cfg = LONG then Open else Close)"
           "\<forall>ts. lowerWindow cfg lvls a w (i + 1) ts = Inr (ts @ new)"
      by blast
    have inr: "\<not> int (length lvls) \<le> a - i" using assms Suc.prems by simp
    have "\<forall>ts. lowerWindow cfg lvls a w i ts = Inr (ts @ (?t # new))"
      using iw False inr new(2) by (subst lowerWindow.simps) (simp add: Let_def)
    moreover have "\<forall>t \<in> set (?t # new). action t = (if direction cfg = LONG then Open else Close)"
      using new(1) by simp
    ultimately show ?thesis by blast
  qed
qed

lemma upperWindow_result:
  assumes "0 \<le> a"
  shows "0 \<le> i \<Longrightarrow>
         \<exists>new. (\<forall>t \<in> set new. action t = (if direction cfg = LONG then Close else Open)) \<and>
               (\<forall>d ts. upperWindow cfg lvls a w d i ts
                          = Inr (ts @ (if direction cfg = LONG \<and> d then [] else new)))"
proof (induction "nat (w + 1 - i)" arbitrary: i)
  case 0
  then have "\<not> i \<le> w" by simp
  then have "\<forall>d ts. upperWindow cfg lvls a w d i ts = Inr (ts @ [])"
    by (subst upperWindow.simps) simp
  then show ?case by (intro exI[of _ "[]"]) simp
next
  case (Suc n)
  then have iw: "i \<le> w" by simp
  show ?case
  proof (cases "int (length lvls) \<le> a + i")
    case True
    then have "\<forall>d ts. upperWindow cfg lvls a w d i ts = Inr (ts @ [])"
      using iw by (subst upperWindow.simps) (simp add: Let_def)
    then show ?thesis by (intro exI[of _ "[]"]) simp
  next
    case False
    let ?t = "\<lparr> tprice = price (lvls ! nat (a + i)), amount = quantityPerGrid cfg,
                  action = (if direction cfg = LONG then Close else Open) \<rparr>"
    have n: "n = nat (w + 1 - (i + 1))" using Suc(2) by simp
    have "0 \<le> i + 1" using Suc.prems by simp
    from Suc(1)[OF n this] obtain new where
      new: "\<forall>t \<in> set new. action t = (if direction cfg = LONG then Close else Open)"
           "\<forall>d ts. upperWindow cfg lvls a w d (i + 1) ts
                      = Inr (ts @ (if direction cfg = LONG \<and> d then [] else new))"
      by blast
    have nn: "\<not> a + i < 0" using assms Suc.prems by simp
    have "upperWindow cfg lvls a w d i ts
            = Inr (ts @ (if direction cfg = LONG \<and> d then [] else ?t # new))" for d ts
      using iw False nn new(2) by (subst upperWindow.simps) (simp add: Let_def)
    moreover have "\<forall>t \<in> set (?t # new). action t = (if direction cfg = LONG then Close else Open)"
      using new(1) by simp
    ultimately show ?thesis by blast
  qed
qed

lemma buildTargets_filter:
  assumes "0 \<le> a" and "a < int (length lvls)"
  shows "\<exists>enabled. buildTargets cfg lvls a w False = Inr enabled \<and>
           buildTargets cfg lvls a w True = Inr (filter (\<lambda>t. action t \<noteq> Close) enabled)"
proof -
  obtain lw where lw: "\<forall>t \<in> set lw. action t = (if direction cfg = LONG then Open else Close)"
      "\<forall>ts. lowerWindow cfg lvls a w 1 ts = Inr (ts @ lw)"
    using lowerWindow_result[OF assms(2), of 1 cfg w] by auto
  obtain uw where uw: "\<forall>t \<in> set uw. action t = (if direction cfg = LONG then Close else Open)"
      "\<forall>d ts. upperWindow cfg lvls a w d 1 ts
                 = Inr (ts @ (if direction cfg = LONG \<and> d then [] else uw))"
    using upperWindow_result[OF assms(1), of 1 cfg lvls w] by auto
  have f: "buildTargets cfg lvls a w False = Inr (lw @ uw)"
    using assms lw(2) uw(2) by (simp add: buildTargets_def Let_def spliceLoop_filter)
  have t: "buildTargets cfg lvls a w True
             = Inr (filter (\<lambda>t. \<not> (direction cfg = SHORT \<and> action t = Close))
                      (lw @ (if direction cfg = LONG then [] else uw)))"
    using assms lw(2) uw(2) by (simp add: buildTargets_def Let_def spliceLoop_filter)
  have "filter (\<lambda>t. \<not> (direction cfg = SHORT \<and> action t = Close))
          (lw @ (if direction cfg = LONG then [] else uw))
        = filter (\<lambda>t. action t \<noteq> Close) (lw @ uw)"
  proof (cases "direction cfg")
    case LONG
    then show ?thesis using lw(1) uw(1) by (simp add: filter_id_conv filter_empty_conv)
  next
    case SHORT
    then show ?thesis by simp
  qed
  with f t show ?thesis by simp
qed

lemma refreshLoop_targets:
  assumes "anchorIndices eng (keyOf ctx) = Some a"
      and "buildTargets (config ctx) (levels ctx) a (windowSizeOf w)
             (isCloseDisabled eng (keyOf ctx) = Some True) = Inr targets"
  shows "refreshLoop gws ctx w k eng =
           Some (Inr (), eng\<lparr> exec := snd (syncActiveOrders (gws k) (symbol (config ctx))
                                             (direction (config ctx)) targets (exec eng)) \<rparr>)"
proof -
  have r: "fst (syncActiveOrders gw symb dir ts ex) = Inr ()" for gw symb dir ts ex
    by (simp add: syncActiveOrders_def split: prod.splits sum.splits)
  obtain ex' where s: "syncActiveOrders (gws k) (symbol (config ctx)) (direction (config ctx))
                         targets (exec eng) = (Inr (), ex')"
    using r[of "gws k" "symbol (config ctx)" "direction (config ctx)" targets "exec eng"]
    by (cases "syncActiveOrders (gws k) (symbol (config ctx)) (direction (config ctx))
                 targets (exec eng)") auto
  show ?thesis
    using assms s by (subst refreshLoop.simps) (simp add: keyOf_def)
qed

lemma resume_targets:
  assumes "anchorIndices (asyncEngine s) (keyOf (taskCtx (asyncTasks s ! i))) = Some a"
      and "buildTargets (config (taskCtx (asyncTasks s ! i))) (levels (taskCtx (asyncTasks s ! i)))
             a (windowSizeOf w)
             (isCloseDisabled (asyncEngine s) (keyOf (taskCtx (asyncTasks s ! i))) = Some True)
           = Inr targets"
      and "i < length (asyncTasks s)" and "taskPc (asyncTasks s ! i) = LockGranted"
  shows "taskPc (asyncTasks (resume w i s) ! i) = InSync targets"
  using assms by (simp add: resume_def loopBody_def Let_def setPc_def)


text \<open>
  Claim C3.  A refresh whose stored anchor \<open>a\<close> is a level of the ladder builds its
  target set from the windows around \<open>a\<close> and the engine's close flag of the strategy:
  with the flag unset it is the list \<open>enabled\<close>, and with the flag set it is \<open>enabled\<close>
  without its close targets, so that it holds no close target, for a LONG and for a
  SHORT strategy and for every window size.  This is the list the refresh passes to
  \<open>syncActiveOrders\<close>, in the sequential reading of the method
  (\<open>refreshGridOrdersByAnchor\<close>, and every round of its loop \<open>refreshLoop\<close>) and in the
  task that continues after the lock was granted (\<open>resume\<close>).  For a LONG strategy
  with anchor 5 and window 1 on a ladder of at least seven levels, \<open>enabled\<close> is level 4
  (open) and level 6 (close), and with the flag set the targets are level 4 (open) alone.
\<close>

theorem refresh_drops_close_targets:
  assumes "anchorIndices eng (keyOf ctx) = Some anchorIndex"
      and "0 \<le> anchorIndex" and "anchorIndex < int (length (levels ctx))"
  shows "\<exists>enabled targets.
           buildTargets (config ctx) (levels ctx) anchorIndex (windowSizeOf order_window) False
             = Inr enabled \<and>
           targets = (if isCloseDisabled eng (keyOf ctx) = Some True
                      then filter (\<lambda>t. action t \<noteq> Close) enabled else enabled) \<and>
           (isCloseDisabled eng (keyOf ctx) = Some True \<longrightarrow>
              (\<forall>t \<in> set targets. action t \<noteq> Close)) \<and>
           refreshLoop gws ctx order_window k eng =
             Some (Inr (), eng\<lparr> exec := snd (syncActiveOrders (gws k) (symbol (config ctx))
                                               (direction (config ctx)) targets (exec eng)) \<rparr>) \<and>
           refreshGridOrdersByAnchor gws ctx order_window eng =
             Some (Inr (), eng\<lparr> exec := snd (syncActiveOrders (gws 0) (symbol (config ctx))
                                               (direction (config ctx)) targets (exec eng)) \<rparr>) \<and>
           (\<forall>s i. i < length (asyncTasks s) \<and> taskPc (asyncTasks s ! i) = LockGranted \<and>
                  taskCtx (asyncTasks s ! i) = ctx \<and> asyncEngine s = eng \<longrightarrow>
                  taskPc (asyncTasks (resume order_window i s) ! i) = InSync targets) \<and>
           (direction (config ctx) = LONG \<and> anchorIndex = 5 \<and> windowSizeOf order_window = 1 \<and>
            7 \<le> length (levels ctx) \<longrightarrow>
              enabled = [\<lparr> tprice = price (levels ctx ! 4), amount = quantityPerGrid (config ctx),
                            action = Open \<rparr>,
                         \<lparr> tprice = price (levels ctx ! 6), amount = quantityPerGrid (config ctx),
                            action = Close \<rparr>] \<and>
              filter (\<lambda>t. action t \<noteq> Close) enabled
                = [\<lparr> tprice = price (levels ctx ! 4), amount = quantityPerGrid (config ctx),
                      action = Open \<rparr>])"
proof -
  let ?w = "windowSizeOf order_window"
  let ?d = "isCloseDisabled eng (keyOf ctx) = Some True"
  obtain enabled where
    e: "buildTargets (config ctx) (levels ctx) anchorIndex ?w False = Inr enabled"
       "buildTargets (config ctx) (levels ctx) anchorIndex ?w True
          = Inr (filter (\<lambda>t. action t \<noteq> Close) enabled)"
    using buildTargets_filter[OF assms(2,3)] by blast
  define targets where
    "targets = (if ?d then filter (\<lambda>t. action t \<noteq> Close) enabled else enabled)"
  have b: "buildTargets (config ctx) (levels ctx) anchorIndex ?w ?d = Inr targets"
    using e by (simp add: targets_def)
  have nc: "?d \<longrightarrow> (\<forall>t \<in> set targets. action t \<noteq> Close)"
    by (simp add: targets_def)
  have r: "refreshLoop gws ctx order_window k eng =
             Some (Inr (), eng\<lparr> exec := snd (syncActiveOrders (gws k) (symbol (config ctx))
                                               (direction (config ctx)) targets (exec eng)) \<rparr>)"
    using assms(1) b by (rule refreshLoop_targets)
  have r0: "refreshGridOrdersByAnchor gws ctx order_window eng =
             Some (Inr (), eng\<lparr> exec := snd (syncActiveOrders (gws 0) (symbol (config ctx))
                                               (direction (config ctx)) targets (exec eng)) \<rparr>)"
    unfolding refreshGridOrdersByAnchor_def using assms(1) b by (rule refreshLoop_targets)
  have a: "taskPc (asyncTasks (resume order_window i s) ! i) = InSync targets"
    if "i < length (asyncTasks s) \<and> taskPc (asyncTasks s ! i) = LockGranted \<and>
        taskCtx (asyncTasks s ! i) = ctx \<and> asyncEngine s = eng" for s i
    using that assms(1) b by (intro resume_targets[where a = anchorIndex]) auto
  have x: "enabled = [\<lparr> tprice = price (levels ctx ! 4), amount = quantityPerGrid (config ctx),
                        action = Open \<rparr>,
                     \<lparr> tprice = price (levels ctx ! 6), amount = quantityPerGrid (config ctx),
                        action = Close \<rparr>]"
    if "direction (config ctx) = LONG \<and> anchorIndex = 5 \<and> ?w = 1 \<and> 7 \<le> length (levels ctx)"
    using that e(1) example_targets(1)[of "config ctx" "levels ctx"] by simp
  show ?thesis
    using e(1) nc r r0 a x by (intro exI[of _ enabled] exI[of _ targets]) (auto simp: targets_def)
qed

theorem refresh_drops_close_targets_witness:
  "refreshGridOrdersByAnchor idleGateways (exampleCtx LONG) 1 closeDisabledEngine =
     Some (Inr (), closeDisabledEngine\<lparr> exec := snd (syncActiveOrders (idleGateways 0)
             ''SOL/USDT:USDT'' LONG [\<lparr> tprice = 16, amount = 1, action = Open \<rparr>]
             (exec closeDisabledEngine)) \<rparr>) \<and>
   taskPc (asyncTasks (resume 1 0 (invoke ByFill (exampleCtx LONG)
                                    (asyncStart closeDisabledEngine))) ! 0)
     = InSync [\<lparr> tprice = 16, amount = 1, action = Open \<rparr>] \<and>
   buildTargets (exampleConfig LONG) exampleLevels 5 1 False
     = Inr [\<lparr> tprice = 16, amount = 1, action = Open \<rparr>,
            \<lparr> tprice = 20, amount = 1, action = Close \<rparr>]"
proof -
  let ?s = "invoke ByFill (exampleCtx LONG) (asyncStart closeDisabledEngine)"
  have k: "keyOf (exampleCtx LONG) = exampleKey"
    by (simp add: keyOf_def exampleCtx_def exampleConfig_def getStratKey_def exampleKey_def)
  have h1: "anchorIndices closeDisabledEngine (keyOf (exampleCtx LONG)) = Some 5"
    unfolding k by (simp add: closeDisabledEngine_def engineAt_def)
  have h2: "(0::int) \<le> 5" "5 < int (length (levels (exampleCtx LONG)))"
    by (simp_all add: exampleCtx_def exampleLevels_def)
  note h = h1 h2
  have d: "isCloseDisabled closeDisabledEngine (keyOf (exampleCtx LONG)) = Some True"
    unfolding k by (simp add: closeDisabledEngine_def)
  have c: "direction (config (exampleCtx LONG)) = LONG" "windowSizeOf 1 = 1"
          "7 \<le> length (levels (exampleCtx LONG))"
          "symbol (config (exampleCtx LONG)) = ''SOL/USDT:USDT''"
          "config (exampleCtx LONG) = exampleConfig LONG" "levels (exampleCtx LONG) = exampleLevels"
          "price (exampleLevels ! 4) = 16" "price (exampleLevels ! 6) = 20"
          "quantityPerGrid (exampleConfig LONG) = 1"
    by (simp_all add: exampleCtx_def exampleConfig_def exampleLevels_def windowSizeOf_def
        mkLevel_def)
  have s: "0 < length (asyncTasks ?s) \<and> taskPc (asyncTasks ?s ! 0) = LockGranted \<and>
           taskCtx (asyncTasks ?s ! 0) = exampleCtx LONG \<and> asyncEngine ?s = closeDisabledEngine"
    by (simp add: invoke_def getLock_def asyncStart_def newMutex_def Let_def)
  from refresh_drops_close_targets[OF h, of 1 idleGateways 0]
  obtain enabled targets where
    t: "buildTargets (config (exampleCtx LONG)) (levels (exampleCtx LONG)) 5 (windowSizeOf 1) False
          = Inr enabled"
       "targets = (if isCloseDisabled closeDisabledEngine (keyOf (exampleCtx LONG)) = Some True
                   then filter (\<lambda>t. action t \<noteq> Close) enabled else enabled)"
       "refreshGridOrdersByAnchor idleGateways (exampleCtx LONG) 1 closeDisabledEngine =
          Some (Inr (), closeDisabledEngine\<lparr> exec := snd (syncActiveOrders (idleGateways 0)
                  (symbol (config (exampleCtx LONG))) (direction (config (exampleCtx LONG)))
                  targets (exec closeDisabledEngine)) \<rparr>)"
       "\<forall>s i. i < length (asyncTasks s) \<and> taskPc (asyncTasks s ! i) = LockGranted \<and>
               taskCtx (asyncTasks s ! i) = exampleCtx LONG \<and> asyncEngine s = closeDisabledEngine
               \<longrightarrow> taskPc (asyncTasks (resume 1 i s) ! i) = InSync targets"
       "direction (config (exampleCtx LONG)) = LONG \<and> (5::int) = 5 \<and> windowSizeOf 1 = 1 \<and>
        7 \<le> length (levels (exampleCtx LONG)) \<longrightarrow>
          enabled = [\<lparr> tprice = price (levels (exampleCtx LONG) ! 4),
                        amount = quantityPerGrid (config (exampleCtx LONG)), action = Open \<rparr>,
                     \<lparr> tprice = price (levels (exampleCtx LONG) ! 6),
                        amount = quantityPerGrid (config (exampleCtx LONG)), action = Close \<rparr>] \<and>
          filter (\<lambda>t. action t \<noteq> Close) enabled
            = [\<lparr> tprice = price (levels (exampleCtx LONG) ! 4),
                  amount = quantityPerGrid (config (exampleCtx LONG)), action = Open \<rparr>]"
    by blast
  have en: "enabled = [\<lparr> tprice = 16, amount = 1, action = Open \<rparr>,
                      \<lparr> tprice = 20, amount = 1, action = Close \<rparr>]"
    using t(5) c by simp
  have tg: "targets = [\<lparr> tprice = 16, amount = 1, action = Open \<rparr>]"
    using t(2) d en by simp
  show ?thesis
    using t(1) t(3) t(4)[rule_format, OF s] en tg c by simp
qed
section \<open>The fill handler\<close>

lemma syncActiveOrders_returns: "fst (syncActiveOrders gw symb dir targets ex) = Inr ()"
  by (simp add: syncActiveOrders_def split: prod.splits sum.splits)

lemma refreshLoop_once:
  "\<exists>r eng'. refreshLoop gws ctx ow k eng = Some (r, eng') \<and>
      anchorIndices eng' = anchorIndices eng \<and>
      lastAnchorResetTime eng' = lastAnchorResetTime eng \<and>
      isCloseDisabled eng' = isCloseDisabled eng"
proof -
  have no: "syncActiveOrders gw symb dir targets ex \<noteq> (Inl e, ex')" for gw symb dir targets ex e ex'
    using syncActiveOrders_returns[of gw symb dir targets ex] by auto
  show ?thesis
    by (subst refreshLoop.simps) (auto simp: no split: option.splits sum.splits prod.splits)
qed

lemma refresh_keeps:
  "\<exists>r eng'. refreshGridOrdersByAnchor gws ctx ow eng = Some (r, eng') \<and>
      anchorIndices eng' = anchorIndices eng \<and>
      lastAnchorResetTime eng' = lastAnchorResetTime eng \<and>
      isCloseDisabled eng' = isCloseDisabled eng"
  unfolding refreshGridOrdersByAnchor_def by (rule refreshLoop_once)



text \<open>The handler run without interruption is the stores followed by the refresh.\<close>

lemma onFill_onFillStore:
  "onFill gws ctx order_window order referencePrice eng =
     (case onFillStore ctx order referencePrice eng of
        None \<Rightarrow> Some (Inr (), eng)
      | Some (eng1, called) \<Rightarrow>
          if called then refreshGridOrdersByAnchor gws ctx order_window eng1
          else Some (Inr (), eng1))"
  by (simp add: onFill_def onFillStore_def Let_def split: option.splits)



text \<open>
  The stored anchor is not protected while the callback awaits: the drift handler writes
  the anchor with no lock held.  In the run \<open>fillThenDrift\<close> the fill stores anchor 4 and
  its refresh syncs the targets around level 4; a drift reset stores anchor 1 while that
  sync is in flight; when the fill's refresh has returned the engine holds anchor 1, and
  the refresh of the drift reset is the next to run.
\<close>

lemma drift_overwrites_fill_anchor:
  "map taskPc (asyncTasks (asyncRun 1 (take 3 fillThenDrift) (asyncStart (engineAt exampleKey 3))))
     = [InSync [\<lparr> tprice = 14, amount = 1, action = Open \<rparr>,
                \<lparr> tprice = 18, amount = 1, action = Close \<rparr>]] \<and>
   anchorIndices (asyncEngine (asyncRun 1 (take 3 fillThenDrift)
                                 (asyncStart (engineAt exampleKey 3)))) exampleKey = Some 4 \<and>
   map taskPc (asyncTasks (asyncRun 1 fillThenDrift (asyncStart (engineAt exampleKey 3))))
     = [Returned, LockGranted] \<and>
   anchorIndices (asyncEngine (asyncRun 1 fillThenDrift (asyncStart (engineAt exampleKey 3))))
     exampleKey = Some 1"
  by code_simp

section \<open>The drift handler\<close>

lemma onTicker_fired:
  assumes "onTicker gws ctx ow p now eng = Some (True, r, eng')"
  shows "\<exists>a. anchorIndices eng (getStratKey (symbol (config ctx)) (direction (config ctx))) = Some a \<and>
             0 \<le> a \<and> a < int (length (levels ctx)) \<and>
             fmul (currentGridDiffOf (levels ctx) a) 2 < \<bar>fsub p (price (levels ctx ! nat a))\<bar> \<and>
             5000 \<le> now - lastResetOf eng (getStratKey (symbol (config ctx)) (direction (config ctx)))"
  using assms
  by (auto simp: onTicker_def Let_def split: option.splits if_splits prod.splits)

lemma refresh_not_None: "refreshGridOrdersByAnchor gws ctx ow e \<noteq> None"
  using refresh_keeps[of gws ctx ow e] by auto

lemma refresh_lastReset:
  "refreshGridOrdersByAnchor gws ctx ow e = Some (r, eng') \<Longrightarrow>
     lastAnchorResetTime eng' = lastAnchorResetTime e"
  using refresh_keeps[of gws ctx ow e] by auto

lemma onTicker_lastReset:
  "\<exists>fired r eng'. onTicker gws ctx ow p now eng = Some (fired, r, eng') \<and>
      (fired \<longrightarrow> 5000 \<le> now - lastResetOf eng (getStratKey (symbol (config ctx)) (direction (config ctx)))) \<and>
      lastResetOf eng' (getStratKey (symbol (config ctx)) (direction (config ctx))) =
        (if fired then now else lastResetOf eng (getStratKey (symbol (config ctx)) (direction (config ctx))))"
proof -
  let ?key = "getStratKey (symbol (config ctx)) (direction (config ctx))"
  have quiet: ?thesis if "onTicker gws ctx ow p now eng = Some (False, r, eng)" for r
    using that by auto
  show ?thesis
  proof (cases "anchorIndices eng ?key")
    case None
    then show ?thesis by (intro quiet[of "Inr ()"]) (simp add: onTicker_def)
  next
    case (Some a)
    show ?thesis
    proof (cases "\<not> (0 \<le> a \<and> a < int (length (levels ctx))) \<or> length (levels ctx) < 2")
      case True
      then show ?thesis using Some
        by (intro quiet[of "Inl typeError"]) (simp add: onTicker_def)
    next
      case False
      note rng = False
      show ?thesis
      proof (cases "fmul (currentGridDiffOf (levels ctx) a) 2
                      < \<bar>fsub p (price (levels ctx ! nat a))\<bar> \<and> \<not> now - lastResetOf eng ?key < 5000")
        case False
        then show ?thesis using Some rng
          by (intro quiet[of "Inr ()"]) (auto simp: onTicker_def Let_def)
      next
        case True
        note go = True
        show ?thesis
        proof (cases "getNearestLevels ctx p")
          case None
          then show ?thesis using Some rng go
            by (intro quiet[of "Inr ()"]) (auto simp: onTicker_def Let_def)
        next
          case (Some nearest)
          note nr = Some
          show ?thesis
          proof (cases "closestIndex nearest p \<noteq> a")
            case False
            then show ?thesis using \<open>anchorIndices eng ?key = Some a\<close> rng go nr
              by (intro quiet[of "Inr ()"]) (auto simp: onTicker_def Let_def)
          next
            case True
            let ?e = "eng\<lparr> anchorIndices := (anchorIndices eng)(?key \<mapsto> closestIndex nearest p),
                           lastAnchorResetTime := (lastAnchorResetTime eng)(?key \<mapsto> now) \<rparr>"
            obtain r eng' where r: "refreshGridOrdersByAnchor gws ctx ow ?e = Some (r, eng')"
              and l: "lastAnchorResetTime eng' = lastAnchorResetTime ?e"
              using refresh_keeps[of gws ctx ow ?e] by blast
            have "onTicker gws ctx ow p now eng = Some (True, r, eng')"
              using \<open>anchorIndices eng ?key = Some a\<close> rng go nr True r
              by (auto simp: onTicker_def Let_def)
            moreover have "lastResetOf eng' ?key = now"
              using l by (simp add: lastResetOf_def)
            moreover have "5000 \<le> now - lastResetOf eng ?key"
              using go by simp
            ultimately show ?thesis by auto
          qed
        qed
      qed
    qed
  qed
qed

lemma onFill_lastReset:
  "\<exists>r eng'. onFill gws ctx ow order ref eng = Some (r, eng') \<and>
      lastAnchorResetTime eng' = lastAnchorResetTime eng"
proof (cases "getNearestLevels ctx ref")
  case None
  then show ?thesis by (simp add: onFill_def)
next
  case (Some nearest)
  let ?key = "getStratKey (symbol (config ctx)) (direction (config ctx))"
  let ?new = "closestIndex nearest ref"
  let ?eng1 = "eng\<lparr> anchorIndices := (anchorIndices eng)(?key \<mapsto> finalAnchorOf ctx order ?new) \<rparr>"
  let ?eng2 = "if isTriggeringStrat order (config ctx) \<and> isCloseDisabled ?eng1 ?key = Some True
               then ?eng1\<lparr> isCloseDisabled := (isCloseDisabled ?eng1)(?key \<mapsto> False) \<rparr>
               else ?eng1"
  show ?thesis
  proof (cases "anchorIndices eng ?key \<noteq> Some ?new \<or> isTriggeringStrat order (config ctx)")
    case False
    then show ?thesis using Some by (simp add: onFill_def Let_def)
  next
    case True
    obtain r eng' where r: "refreshGridOrdersByAnchor gws ctx ow ?eng2 = Some (r, eng')"
      and a: "lastAnchorResetTime eng' = lastAnchorResetTime ?eng2"
      using refresh_keeps[of gws ctx ow ?eng2] by blast
    have "onFill gws ctx ow order ref eng = Some (r, eng')"
      using Some True r by (simp add: onFill_def Let_def)
    moreover have "lastAnchorResetTime eng' = lastAnchorResetTime eng"
      using a by simp
    ultimately show ?thesis by blast
  qed
qed

lemma eventLoop_cooldown:
  "\<exists>resets eng'. eventLoop gwss ctx ow n es eng = Some (resets, eng') \<and>
      cooldownRespected (lastResetOf eng (getStratKey (symbol (config ctx)) (direction (config ctx)))) resets"
proof (induction es arbitrary: n eng)
  case Nil
  then show ?case by simp
next
  case (Cons e es)
  let ?key = "getStratKey (symbol (config ctx)) (direction (config ctx))"
  show ?case
  proof (cases e)
    case (Ticker p now)
    obtain fired r eng1 where t: "onTicker (gwss n) ctx ow p now eng = Some (fired, r, eng1)"
      and f: "fired \<longrightarrow> 5000 \<le> now - lastResetOf eng ?key"
      and l: "lastResetOf eng1 ?key = (if fired then now else lastResetOf eng ?key)"
      using onTicker_lastReset[of "gwss n" ctx ow p now eng] by blast
    obtain resets eng2 where r: "eventLoop gwss ctx ow (n + 1) es eng1 = Some (resets, eng2)"
      and c: "cooldownRespected (lastResetOf eng1 ?key) resets"
      using Cons.IH[of "n + 1" eng1] by blast
    show ?thesis
      using t f l r c Ticker by (cases fired) auto
  next
    case (Fill order ref)
    obtain r eng1 where t: "onFill (gwss n) ctx ow order ref eng = Some (r, eng1)"
      and l: "lastAnchorResetTime eng1 = lastAnchorResetTime eng"
      using onFill_lastReset[of "gwss n" ctx ow order ref eng] by blast
    obtain resets eng2 where r: "eventLoop gwss ctx ow (n + 1) es eng1 = Some (resets, eng2)"
      and c: "cooldownRespected (lastResetOf eng1 ?key) resets"
      using Cons.IH[of "n + 1" eng1] by blast
    show ?thesis
      using t l r c Fill by (auto simp: lastResetOf_def)
  qed
qed


lemma drift_example_fires:
  "map_option fst (onTicker idleGateways (exampleCtx LONG) 1 (21 / 2) 10000
       (engineAt ''SOL/USDT:USDT_LONG'' 2)) = Some True"
  by code_simp

lemma drift_example_spacing:
  "\<not> (fmul (spec_localSpacing exampleLevels 2 (21 / 2)) 2
        < \<bar>fsub (21 / 2) (price (exampleLevels ! 2))\<bar>)"
  by code_simp

text \<open>
  Claim C8 as stated fails.  On the ladder 10, 11, 13, 14, 16, 18, 20 with the anchor at
  level 2 (13) and no earlier reset, a ticker at 10.5 resets the anchor: the handler
  compares the distance 2.5 with twice the spacing to the upper neighbour (14 - 13 = 1).
  The price travels downwards, where the neighbouring level is 11: twice the spacing in
  the direction of travel is 4, which the distance does not exceed.
\<close>

theorem drift_reset_counterexample:
  "map_option fst (onTicker idleGateways (exampleCtx LONG) 1 (21 / 2) 10000
       (engineAt ''SOL/USDT:USDT_LONG'' 2)) = Some True \<and>
   \<not> (fmul (spec_localSpacing exampleLevels 2 (21 / 2)) 2
        < \<bar>fsub (21 / 2) (price (exampleLevels ! 2))\<bar>)"
  using drift_example_fires drift_example_spacing by simp

text \<open>
  Claim C8, amended.  A drift reset occurs only when the distance between the ticker price
  and the anchor price exceeds twice the spacing between the anchor and its upper
  neighbour (its lower neighbour when the anchor is the top level), and at least
  5000 ms have passed since the strategy's last drift reset.  Over any sequence of ticker
  and fill events the handlers return, and successive drift resets are at least 5000 ms
  apart.
\<close>

theorem drift_reset_guard:
  "(map_option fst (onTicker gws ctx order_window currentPrice now eng) = Some True \<longrightarrow>
      (\<exists>a. anchorIndices eng (getStratKey (symbol (config ctx)) (direction (config ctx)))
             = Some a \<and>
           0 \<le> a \<and> a < int (length (levels ctx)) \<and>
           fmul (currentGridDiffOf (levels ctx) a) 2
             < \<bar>fsub currentPrice (price (levels ctx ! nat a))\<bar> \<and>
           5000 \<le> now - lastResetOf eng
                          (getStratKey (symbol (config ctx)) (direction (config ctx))))) \<and>
   (\<exists>resets eng''.
      eventLoop gwss ctx order_window n es eng = Some (resets, eng'') \<and>
      cooldownRespected
        (lastResetOf eng (getStratKey (symbol (config ctx)) (direction (config ctx)))) resets)"
proof (intro conjI impI)
  assume "map_option fst (onTicker gws ctx order_window currentPrice now eng) = Some True"
  then obtain r eng' where "onTicker gws ctx order_window currentPrice now eng = Some (True, r, eng')"
    by (cases "onTicker gws ctx order_window currentPrice now eng") auto
  then show "\<exists>a. anchorIndices eng (getStratKey (symbol (config ctx)) (direction (config ctx)))
             = Some a \<and>
           0 \<le> a \<and> a < int (length (levels ctx)) \<and>
           fmul (currentGridDiffOf (levels ctx) a) 2
             < \<bar>fsub currentPrice (price (levels ctx ! nat a))\<bar> \<and>
           5000 \<le> now - lastResetOf eng
                          (getStratKey (symbol (config ctx)) (direction (config ctx)))"
    by (rule onTicker_fired)
next
  show "\<exists>resets eng''.
      eventLoop gwss ctx order_window n es eng = Some (resets, eng'') \<and>
      cooldownRespected
        (lastResetOf eng (getStratKey (symbol (config ctx)) (direction (config ctx)))) resets"
    by (rule eventLoop_cooldown)
qed

theorem drift_reset_guard_witness:
  "map_option fst (onTicker idleGateways (exampleCtx LONG) 1 (21 / 2) 10000
       (engineAt ''SOL/USDT:USDT_LONG'' 2)) = Some True \<and>
   fmul (currentGridDiffOf exampleLevels 2) 2 < \<bar>fsub (21 / 2) (price (exampleLevels ! 2))\<bar> \<and>
   5000 \<le> 10000 - lastResetOf (engineAt ''SOL/USDT:USDT_LONG'' 2) ''SOL/USDT:USDT_LONG''"
proof -
  have k: "getStratKey (symbol (config (exampleCtx LONG))) (direction (config (exampleCtx LONG)))
             = ''SOL/USDT:USDT_LONG''"
    by (simp add: exampleCtx_def exampleConfig_def getStratKey_def)
  have a: "anchorIndices (engineAt ''SOL/USDT:USDT_LONG'' 2) ''SOL/USDT:USDT_LONG'' = Some 2"
    by (simp add: engineAt_def)
  have l: "levels (exampleCtx LONG) = exampleLevels"
    by (simp add: exampleCtx_def)
  show ?thesis
    using drift_example_fires a
      drift_reset_guard[of idleGateways "exampleCtx LONG" 1 "21 / 2" 10000
        "engineAt ''SOL/USDT:USDT_LONG'' 2", THEN conjunct1]
    by (auto simp: k l)
qed

section \<open>Where the rounding of the model is the rounding of binary64\<close>



















section \<open>The ladder\<close>

subsection \<open>Termination of the generation loop\<close>












subsection \<open>No validation of the configuration\<close>

lemma calculateLevels_inverted:
  assumes "upperPrice cfg \<le> lowerPrice cfg"
  shows "calculateLevels cfg tick = Some [mkLevel 0 (roundToTick tick (lowerPrice cfg))]"
  using assms unfolding calculateLevels_def by (subst levelsLoop.simps) simp

lemma roundToTick_100: "roundToTick 1 100 = 100"
  by code_simp

text \<open>
  Claim C4 as stated fails.  With \<open>upperPrice = 90 < lowerPrice = 100\<close> and
  \<open>gridSpread = -1/2\<close> the build raises nothing and returns the ladder of the one level 100.
\<close>

theorem calculateLevels_accepts_invalid_config:
  "upperPrice invertedConfig \<le> lowerPrice invertedConfig \<and>
   gridSpread invertedConfig \<le> 0 \<and>
   calculateLevels invertedConfig 1 = Some [mkLevel 0 100]"
  using calculateLevels_inverted[of invertedConfig 1] roundToTick_100
  by (simp add: invertedConfig_def)

text \<open>
  Claim C4, amended.  \<open>calculateLevels\<close> validates nothing and raises no error: for every
  configuration with \<open>upperPrice \<le> lowerPrice\<close>, whatever its \<open>gridSpread\<close>, the loop
  body never runs and the result is the ladder of the single level \<open>lowerPrice\<close> rounded
  to the tick.
\<close>

theorem calculateLevels_inverted_band:
  assumes "upperPrice cfg \<le> lowerPrice cfg"
  shows "calculateLevels cfg tickSize
           = Some [mkLevel 0 (roundToTick tickSize (lowerPrice cfg))]"
  using assms by (rule calculateLevels_inverted)

theorem calculateLevels_inverted_band_witness:
  "upperPrice invertedConfig \<le> lowerPrice invertedConfig \<and>
   calculateLevels invertedConfig 1
     = Some [mkLevel 0 (roundToTick 1 (lowerPrice invertedConfig))]"
proof -
  have h: "upperPrice invertedConfig \<le> lowerPrice invertedConfig"
    by (simp add: invertedConfig_def)
  show ?thesis
    using h calculateLevels_inverted_band[OF h, of 1] by simp
qed

subsection \<open>Shape, order and rounding error of the ladder\<close>

lemma rawPrice_0 [simp]: "rawPrice cfg 0 = lowerPrice cfg"
  by (simp add: rawPrice_def)

lemma rawPrice_Suc [simp]:
  "rawPrice cfg (Suc k) = fmul (rawPrice cfg k) (fadd 1 (gridSpread cfg))"
  by (simp add: rawPrice_def)

















subsection \<open>The operations of the loop within the range of binary64\<close>

lemma one_between: "between 0 0 1"
  by (simp add: between_def)















section \<open>Idempotence of the synchronisation\<close>

lemma classify_alt:
  "classify orders ts =
     (List.map_filter (\<lambda>t. find (matches t) orders) ts,
      filter (\<lambda>t. find (matches t) orders = None) ts)"
  by (induction ts) (auto simp: List.map_filter_simps split: option.splits)

lemma venue_fetch [simp]: "fetchOpenOrders (venueGateway book newIds) s = Inr book"
  by (simp add: venueGateway_def)

lemma cancelStep_venue:
  "issued (cancelStep (venueGateway book newIds) symb ids ex)
     = issued ex @ (if ids = [] then [] else [CancelOrders ids symb])"
  by (simp add: cancelStep_def venueGateway_def call_def Let_def)

lemma createStep_venue:
  "issued (snd (createStep (venueGateway book newIds) key reqs ex))
     = issued ex @ (if reqs = [] then [] else [CreateOrders reqs])"
  by (simp add: createStep_def venueGateway_def call_def Let_def)

lemma syncCalls_eq:
  "syncCalls symb dir ts newIds book ex =
     (let strat = filter (belongs dir) book;
          keep = List.map_filter (\<lambda>t. find (matches t) strat) ts;
          place = filter (\<lambda>t. find (matches t) strat = None) ts;
          cancels = map oid (filter (\<lambda>od. od \<notin> set keep) strat)
      in [FetchOpenOrders symb]
         @ (if cancels = [] then [] else [CancelOrders cancels symb])
         @ (if place = [] then [] else [CreateOrders (map (batchCreate symb dir) place)]))"
proof -
  have "syncActiveOrders gw symb dir ts e = (Inr (), snd (syncTry gw symb dir ts e))" for gw e
    by (cases "syncTry gw symb dir ts e") (auto simp: syncActiveOrders_def split: sum.splits)
  then show ?thesis
    by (simp add: syncCalls_def syncTry_def classify_alt Let_def createStep_venue
        cancelStep_venue call_def)
qed


lemma bookAfter_eq:
  "bookAfter symb dir ts newIds book ex =
     (let strat = filter (belongs dir) book;
          keep = List.map_filter (\<lambda>t. find (matches t) strat) ts;
          place = filter (\<lambda>t. find (matches t) strat = None) ts;
          cancels = map oid (filter (\<lambda>od. od \<notin> set keep) strat)
      in filter (\<lambda>od. oid od \<notin> set cancels) book
         @ map2 restingOrder newIds (map (batchCreate symb dir) place))"
proof -
  define strat where "strat = filter (belongs dir) book"
  define keep where "keep = List.map_filter (\<lambda>t. find (matches t) strat) ts"
  define place where "place = filter (\<lambda>t. find (matches t) strat = None) ts"
  define cancels where "cancels = map oid (filter (\<lambda>od. od \<notin> set keep) strat)"
  have calls: "syncCalls symb dir ts newIds book ex =
      [FetchOpenOrders symb]
      @ (if cancels = [] then [] else [CancelOrders cancels symb])
      @ (if place = [] then [] else [CreateOrders (map (batchCreate symb dir) place)])"
    by (simp only: syncCalls_eq Let_def strat_def keep_def place_def cancels_def)
  have c: "fold (applyCall newIds) (if cancels = [] then [] else [CancelOrders cancels symb]) b
             = filter (\<lambda>od. oid od \<notin> set cancels) b" for b
    by simp
  have p: "fold (applyCall newIds)
             (if place = [] then [] else [CreateOrders (map (batchCreate symb dir) place)]) b
             = b @ map2 restingOrder newIds (map (batchCreate symb dir) place)" for b
    by simp
  have "bookAfter symb dir ts newIds book ex =
          filter (\<lambda>od. oid od \<notin> set cancels) book
          @ map2 restingOrder newIds (map (batchCreate symb dir) place)"
    unfolding bookAfter_def calls fold_append comp_def by (simp only: c p applyCall.simps fold_simps)
  then show ?thesis
    by (simp only: Let_def strat_def keep_def place_def cancels_def)
qed

lemma find_filter_Some:
  "find P xs = Some x \<Longrightarrow> Q x \<Longrightarrow> find P (filter Q xs) = Some x"
  by (induction xs) (auto split: if_splits)

lemma find_append:
  "find P (xs @ ys) = (case find P xs of Some x \<Rightarrow> Some x | None \<Rightarrow> find P ys)"
  by (induction xs) auto

lemma find_Some_in: "find P xs = Some x \<Longrightarrow> x \<in> set xs \<and> P x"
  by (induction xs) (auto split: if_splits)

lemma epsilon_pos: "0 < epsilon"
  unfolding epsilon_def by (rule dbl_gt0) simp

lemma clash_sym: "clash a b \<Longrightarrow> clash b a"
proof -
  have "fsub x y = - fsub y x" for x y
    using dbl_minus[of "y - x"] by (simp add: fsub_def)
  then have "\<bar>fsub x y\<bar> = \<bar>fsub y x\<bar>" for x y
    by (metis abs_minus)
  then show "clash a b \<Longrightarrow> clash b a"
    by (auto simp: clash_def)
qed

lemma action_str_inject [simp]: "action_str a = action_str b \<longleftrightarrow> a = b"
  by (cases a; cases b) auto

lemma matches_resting:
  "matches t (restingOrder i (batchCreate symb dir t')) = clash t t'"
  by (auto simp: matches_def restingOrder_def batchCreate_def clash_def Let_def)

lemma belongs_resting: "belongs dir (restingOrder i (batchCreate symb dir t))"
  by (cases dir) (simp_all add: belongs_def restingOrder_def batchCreate_def Let_def)

lemma clash_refl: "clash t t"
  using epsilon_pos by (simp add: clash_def fsub_def)

lemma set_map_filter_find:
  "set (List.map_filter f xs) = {y. \<exists>x \<in> set xs. f x = Some y}"
  by (induction xs) (auto simp: List.map_filter_simps split: option.splits)

lemma dup_reachable: "buildTargets flatConfig flatLevels 2 2 False = Inr dupTargets"
  by (simp add: buildTargets_def lowerWindow.simps upperWindow.simps spliceLoop.simps Let_def
      flatConfig_def flatLevels_def dupTargets_def mkLevel_def)

lemma dup_first:
  "bookAfter ''SOL/USDT:USDT'' LONG dupTargets [''n1'', ''n2'', ''n3''] [] emptyExecutor
     = [restingAt ''n1'' 100 ''open'', restingAt ''n2'' 100 ''open'',
        restingAt ''n3'' 101 ''close'']"
  by (simp add: bookAfter_eq Let_def dupTargets_def restingAt_def restingOrder_def
      batchCreate_def List.map_filter_simps)

lemma dup_second:
  "syncCalls ''SOL/USDT:USDT'' LONG dupTargets [''n4'', ''n5'', ''n6'']
     [restingAt ''n1'' 100 ''open'', restingAt ''n2'' 100 ''open'',
      restingAt ''n3'' 101 ''close'']
     (executorAfter ''SOL/USDT:USDT'' LONG dupTargets [''n1'', ''n2'', ''n3''] [] emptyExecutor)
     = [FetchOpenOrders ''SOL/USDT:USDT'', CancelOrders [''n2''] ''SOL/USDT:USDT'']"
  using epsilon_pos dbl_of_int[of 1] dbl_of_int[of "-1"]
  by (simp add: syncCalls_eq Let_def dupTargets_def restingAt_def belongs_def matches_def
      fsub_def List.map_filter_simps)

text \<open>
  Claim C7 as stated fails.  On a ladder whose levels 0, 1 and 2 all have the price 100, a
  LONG strategy at anchor 2 with a window of 2 builds two equal open targets at 100.  On
  an empty book the first call creates one order for each of them (ids \<open>n1\<close>, \<open>n2\<close>) and
  one for the close target (\<open>n3\<close>).  In the second call both targets at 100 find the
  order \<open>n1\<close>, so \<open>n2\<close> is not among the kept orders and is cancelled.
\<close>

theorem sync_not_idempotent_on_duplicates:
  "buildTargets flatConfig flatLevels 2 2 False = Inr dupTargets \<and>
   bookAfter ''SOL/USDT:USDT'' LONG dupTargets [''n1'', ''n2'', ''n3''] [] emptyExecutor
     = [restingAt ''n1'' 100 ''open'', restingAt ''n2'' 100 ''open'',
        restingAt ''n3'' 101 ''close''] \<and>
   syncCalls ''SOL/USDT:USDT'' LONG dupTargets [''n4'', ''n5'', ''n6'']
     (bookAfter ''SOL/USDT:USDT'' LONG dupTargets [''n1'', ''n2'', ''n3''] [] emptyExecutor)
     (executorAfter ''SOL/USDT:USDT'' LONG dupTargets [''n1'', ''n2'', ''n3''] [] emptyExecutor)
     = [FetchOpenOrders ''SOL/USDT:USDT'', CancelOrders [''n2''] ''SOL/USDT:USDT'']"
  using dup_reachable dup_first dup_second by simp

text \<open>
  Claim C7, amended.  Let the target list hold no two targets that clash (same action,
  prices less than \<open>epsilon\<close> apart), let the orders of the book have distinct ids, and
  let the venue carry out the first call in full, creating the new orders under unused
  ids.  Then a second call with the same targets on the book the first call left, with
  whatever executor state and ids, issues \<open>fetchOpenOrders\<close> and nothing else: no cancel
  and no create.
\<close>

theorem sync_idempotent:
  assumes ids: "distinct (map oid book)"
      and fresh: "distinct newIds" "set newIds \<inter> set (map oid book) = {}"
      and enough: "length targetLevels \<le> length newIds"
      and sep: "sorted_wrt (\<lambda>a b. \<not> clash a b) targetLevels"
  shows "syncCalls symb dir targetLevels newIds'
           (bookAfter symb dir targetLevels newIds book ex) ex' = [FetchOpenOrders symb]"
proof -
  define strat where "strat = filter (belongs dir) book"
  define keep where "keep = List.map_filter (\<lambda>t. find (matches t) strat) targetLevels"
  define place where "place = filter (\<lambda>t. find (matches t) strat = None) targetLevels"
  define cancels where "cancels = map oid (filter (\<lambda>od. od \<notin> set keep) strat)"
  define C where "C = map2 restingOrder newIds (map (batchCreate symb dir) place)"
  define K where "K = filter (\<lambda>od. od \<in> set keep) strat"
  define book2 where "book2 = bookAfter symb dir targetLevels newIds book ex"
  define strat2 where "strat2 = filter (belongs dir) book2"
  have book2: "book2 = filter (\<lambda>od. oid od \<notin> set cancels) book @ C"
    by (simp only: book2_def bookAfter_eq Let_def strat_def keep_def place_def cancels_def C_def)
  have keep_set: "set keep = {od. \<exists>t \<in> set targetLevels. find (matches t) strat = Some od}"
    by (auto simp: keep_def set_map_filter_find)
  have inj: "inj_on oid (set book)" using ids by (simp add: distinct_map)
  have Keq: "filter (\<lambda>od. oid od \<notin> set cancels) strat = K"
    unfolding K_def
  proof (rule filter_cong[OF refl])
    fix od assume od: "od \<in> set strat"
    show "(oid od \<notin> set cancels) = (od \<in> set keep)"
    proof
      assume "oid od \<notin> set cancels"
      then show "od \<in> set keep" using od by (auto simp: cancels_def)
    next
      assume k: "od \<in> set keep"
      show "oid od \<notin> set cancels"
      proof
        assume "oid od \<in> set cancels"
        then obtain od' where o': "od' \<in> set strat" "od' \<notin> set keep" "oid od' = oid od"
          by (auto simp: cancels_def)
        then have "od' = od" using inj od by (auto simp: strat_def dest: inj_onD)
        with o' k show False by simp
      qed
    qed
  qed
  have Cbel: "filter (belongs dir) C = C"
    by (auto simp: C_def filter_id_conv belongs_resting dest!: set_zip_rightD)
  have strat2: "strat2 = K @ C"
    by (simp add: strat2_def book2 Cbel Keq[symmetric] strat_def filter_filter conj_commute)
  have lenC: "length C = length place"
    using enough by (simp add: C_def place_def) (meson le_trans length_filter_le min.absorb2)
  have Cnth: "C ! i = restingOrder (newIds ! i) (batchCreate symb dir (place ! i))"
    if "i < length place" for i
    using that lenC by (simp add: C_def)
  have sep_place: "sorted_wrt (\<lambda>a b. \<not> clash a b) place"
    unfolding place_def using sep by (rule sorted_wrt_filter)
  have noK: "find (matches t) K = None" if "find (matches t) strat = None" for t
    using that by (auto simp: find_None_iff K_def)
  have findC: "find (matches (place ! i)) C = Some (C ! i)" if i: "i < length place" for i
  proof -
    have "matches (place ! i) (C ! i)"
      using Cnth[OF i] by (simp add: matches_resting clash_refl)
    moreover have "\<not> matches (place ! i) (C ! j)" if "j < i" for j
    proof -
      have "\<not> clash (place ! j) (place ! i)"
        using sep_place that i by (simp add: sorted_wrt_iff_nth_less)
      then have "\<not> clash (place ! i) (place ! j)" using clash_sym by blast
      then show ?thesis using Cnth[of j] that i by (simp add: matches_resting)
    qed
    ultimately show ?thesis
      using i lenC by (auto simp: find_Some_iff)
  qed
  have placed: "place ! i \<in> set targetLevels \<and> find (matches (place ! i)) strat = None"
    if "i < length place" for i
    using nth_mem[OF that] by (simp add: place_def)
  have a: "find (matches t) strat2 \<noteq> None" if t: "t \<in> set targetLevels" for t
  proof (cases "find (matches t) strat")
    case (Some od)
    then have "od \<in> set keep" using t by (auto simp: keep_set)
    moreover have "od \<in> set strat" "matches t od" using find_Some_in[OF Some] by auto
    ultimately show ?thesis by (auto simp: find_None_iff strat2 K_def)
  next
    case None
    then have "t \<in> set place" using t by (simp add: place_def)
    then obtain i where i: "i < length place" "place ! i = t" by (auto simp: in_set_conv_nth)
    have "find (matches t) C = Some (C ! i)" using findC[OF i(1)] i(2) by simp
    then show ?thesis by (simp add: strat2 find_append noK[OF None])
  qed
  have b: "\<exists>t \<in> set targetLevels. find (matches t) strat2 = Some od" if od: "od \<in> set strat2" for od
  proof -
    from od consider "od \<in> set K" | "od \<in> set C" by (auto simp: strat2)
    then show ?thesis
    proof cases
      case 1
      then obtain t where t: "t \<in> set targetLevels" "find (matches t) strat = Some od"
        by (auto simp: K_def keep_set)
      have "find (matches t) K = Some od"
        unfolding K_def using t(2) 1 by (intro find_filter_Some) (auto simp: K_def)
      then have "find (matches t) strat2 = Some od" by (simp add: strat2 find_append)
      then show ?thesis using t(1) by blast
    next
      case 2
      then obtain i where i: "i < length place" "od = C ! i"
        using lenC by (auto simp: in_set_conv_nth)
      have "find (matches (place ! i)) strat2 = Some od"
        using findC[OF i(1)] noK[of "place ! i"] placed[OF i(1)] i(2)
        by (simp add: strat2 find_append)
      then show ?thesis using placed[OF i(1)] by blast
    qed
  qed
  have place2: "filter (\<lambda>t. find (matches t) strat2 = None) targetLevels = []"
    using a by (simp add: filter_empty_conv)
  have keep2: "filter (\<lambda>od. od \<notin> set (List.map_filter (\<lambda>t. find (matches t) strat2) targetLevels))
                 strat2 = []"
    using b by (auto simp: filter_empty_conv set_map_filter_find)
  show ?thesis
    unfolding book2_def[symmetric]
    by (simp add: syncCalls_eq Let_def strat2_def[symmetric] place2 keep2)
qed

theorem sync_idempotent_witness:
  "distinct (map oid exampleBook) \<and> distinct [''n1'', ''n2''] \<and>
   set [''n1'', ''n2''] \<inter> set (map oid exampleBook) = {} \<and>
   length exampleTargets \<le> length [''n1'', ''n2''] \<and>
   sorted_wrt (\<lambda>a b. \<not> clash a b) exampleTargets \<and>
   syncCalls ''SOL/USDT:USDT'' LONG exampleTargets [''n3'', ''n4'']
     (bookAfter ''SOL/USDT:USDT'' LONG exampleTargets [''n1'', ''n2''] exampleBook emptyExecutor)
     (executorAfter ''SOL/USDT:USDT'' LONG exampleTargets [''n1'', ''n2''] exampleBook
        emptyExecutor)
     = [FetchOpenOrders ''SOL/USDT:USDT'']"
proof -
  have h: "distinct (map oid exampleBook)" "distinct [''n1'', ''n2'']"
          "set [''n1'', ''n2''] \<inter> set (map oid exampleBook) = {}"
          "length exampleTargets \<le> length [''n1'', ''n2'']"
          "sorted_wrt (\<lambda>a b. \<not> clash a b) exampleTargets"
    by (simp_all add: exampleBook_def exampleTargets_def restingAt_def clash_def)
  show ?thesis
    using h sync_idempotent[OF h] by simp
qed
section \<open>The ledger round trip\<close>

subsection \<open>Splitting, joining and trimming\<close>

lemma split_not_Nil [simp]: "split c s \<noteq> []"
  by (induction s) (auto split: list.splits)







subsection \<open>Rows and lines of a saved ledger\<close>










lemma metaLine_eq: "metaLine rt cfg = CHR ''#'' # drop 1 (metaLine rt cfg)"
  by (simp add: metaLine_def)


subsection \<open>Loading what was saved\<close>












section \<open>Refreshes of one strategy do not overlap\<close>

subsection \<open>Counting the holders of a lock\<close>

lemma filter_update_length:
  "i < length xs \<Longrightarrow>
   length (filter P (xs[i := y])) + (if P (xs ! i) then 1 else 0)
     = length (filter P xs) + (if P y then 1 else 0)"
proof (induction xs arbitrary: i)
  case Nil
  then show ?case by simp
next
  case (Cons x xs)
  show ?case
  proof (cases i)
    case 0
    then show ?thesis by simp
  next
    case (Suc n)
    then have "n < length xs" using Cons.prems by simp
    from Cons.IH[OF this] show ?thesis using Suc by simp
  qed
qed

lemma filter_length_mono:
  "(\<And>x. P x \<Longrightarrow> Q x) \<Longrightarrow> length (filter P xs) \<le> length (filter Q xs)"
  by (induction xs) auto

lemma setPc_simps [simp]:
  "stratLocks (setPc i p s) = stratLocks s"
  "asyncEngine (setPc i p s) = asyncEngine s"
  "length (asyncTasks (setPc i p s)) = length (asyncTasks s)"
  "taskCtx (asyncTasks (setPc i p s) ! j) = taskCtx (asyncTasks s ! j)"
  "j \<noteq> i \<Longrightarrow> asyncTasks (setPc i p s) ! j = asyncTasks s ! j"
  "i < length (asyncTasks s) \<Longrightarrow> taskPc (asyncTasks (setPc i p s) ! i) = p"
  by (cases "i < length (asyncTasks s)"; cases "j = i";
      simp add: setPc_def nth_list_update list_update_beyond)+

lemma holders_setPc:
  assumes "i < length (asyncTasks s)"
  shows "length (holders k (setPc i p s)) +
           (if keyOf (taskCtx (asyncTasks s ! i)) = k \<and> holdsLock (taskPc (asyncTasks s ! i))
            then 1 else 0)
         = length (holders k s) +
           (if keyOf (taskCtx (asyncTasks s ! i)) = k \<and> holdsLock p then 1 else 0)"
  using filter_update_length[OF assms,
      of "\<lambda>t. keyOf (taskCtx t) = k \<and> holdsLock (taskPc t)"
         "(asyncTasks s ! i)\<lparr> taskPc := p \<rparr>"]
  by (simp add: holders_def setPc_def)

lemma holders_upd [simp]:
  "holders k (s\<lparr> stratLocks := L \<rparr>) = holders k s"
  "holders k (s\<lparr> asyncEngine := e \<rparr>) = holders k s"
  by (simp_all add: holders_def)

lemma lockInv_engine [simp]:
  "lockInv k (s\<lparr> asyncEngine := e \<rparr>) = lockInv k s"
  by (simp add: lockInv_def split: option.splits)

lemma holder_locked:
  assumes "lockInv k s" "i < length (asyncTasks s)"
      and "keyOf (taskCtx (asyncTasks s ! i)) = k" "holdsLock (taskPc (asyncTasks s ! i))"
  shows "\<exists>m. stratLocks s k = Some m \<and> isLocked m \<and> length (holders k s) = 1"
proof -
  have "asyncTasks s ! i \<in> set (holders k s)"
    using assms(2-4) by (auto simp: holders_def)
  then have "holders k s \<noteq> []" by auto
  then show ?thesis using assms(1)
    by (auto simp: lockInv_def split: option.splits if_splits)
qed

lemma waiter_not_holder:
  assumes "lockInv k s" "stratLocks s k = Some m" "j \<in> set (waiters m)"
  shows "j < length (asyncTasks s) \<and> keyOf (taskCtx (asyncTasks s ! j)) = k \<and>
         taskPc (asyncTasks s ! j) = AwaitingLock"
  using assms by (auto simp: lockInv_def)

lemma setPc_holder_inv:
  assumes inv: "\<And>k. lockInv k s" and i: "i < length (asyncTasks s)"
      and h: "holdsLock (taskPc (asyncTasks s ! i))" and p: "holdsLock p"
  shows "lockInv k (setPc i p s)"
proof -
  have cnt: "length (holders k (setPc i p s)) = length (holders k s)"
    using holders_setPc[OF i, of k p] h p by (simp split: if_splits)
  have nw: "j \<noteq> i" if "stratLocks s k = Some m" "j \<in> set (waiters m)" for m j
    using waiter_not_holder[OF inv that] h by auto
  show ?thesis
    using inv[of k] cnt nw by (auto simp: lockInv_def split: option.splits)
qed

lemma setPc_finish:
  assumes inv: "\<And>k. lockInv k s" and i: "i < length (asyncTasks s)"
      and h: "holdsLock (taskPc (asyncTasks s ! i))" and p: "\<not> holdsLock p"
  shows "releasable (keyOf (taskCtx (asyncTasks s ! i))) (setPc i p s)"
    and "k \<noteq> keyOf (taskCtx (asyncTasks s ! i)) \<Longrightarrow> lockInv k (setPc i p s)"
proof -
  let ?ki = "keyOf (taskCtx (asyncTasks s ! i))"
  have nw: "j \<noteq> i" if "stratLocks s k' = Some m" "j \<in> set (waiters m)" for m j k'
    using waiter_not_holder[OF inv that] h by auto
  obtain m where m: "stratLocks s ?ki = Some m" "isLocked m" "length (holders ?ki s) = 1"
    using holder_locked[OF inv i refl h] by auto
  have "length (holders ?ki (setPc i p s)) = 0"
    using holders_setPc[OF i, of ?ki p] h p m(3) by simp
  then show "releasable ?ki (setPc i p s)"
    using inv[of ?ki] m nw[OF m(1)] by (auto simp: releasable_def lockInv_def)
  assume k: "k \<noteq> ?ki"
  have cnt: "length (holders k (setPc i p s)) = length (holders k s)"
    using holders_setPc[OF i, of k p] k by simp
  show "lockInv k (setPc i p s)"
    using inv[of k] cnt nw by (auto simp: lockInv_def split: option.splits)
qed

lemma release_inv:
  assumes r: "releasable ki s" and o: "\<And>k. k \<noteq> ki \<Longrightarrow> lockInv k s"
  shows "lockInv k (release ki s)"
proof -
  obtain m where m: "stratLocks s ki = Some m" "isLocked m" "holders ki s = []"
      "distinct (waiters m)"
      "\<And>j. j \<in> set (waiters m) \<Longrightarrow> j < length (asyncTasks s) \<and>
             keyOf (taskCtx (asyncTasks s ! j)) = ki \<and> taskPc (asyncTasks s ! j) = AwaitingLock"
    using r by (auto simp: releasable_def split: option.splits)
  show ?thesis
  proof (cases "waiters m")
    case Nil
    then have rel: "release ki s = s\<lparr> stratLocks := (stratLocks s)(ki \<mapsto> m\<lparr> isLocked := False \<rparr>) \<rparr>"
      using m(1) by (simp add: release_def)
    show ?thesis
    proof (cases "k = ki")
      case True
      then show ?thesis using m Nil by (simp add: rel lockInv_def)
    next
      case False
      then show ?thesis using o[OF False] by (auto simp: rel lockInv_def split: option.splits)
    qed
  next
    case (Cons j q)
    let ?s' = "s\<lparr> stratLocks := (stratLocks s)(ki \<mapsto> m\<lparr> waiters := q \<rparr>) \<rparr>"
    have rel: "release ki s = setPc j LockGranted ?s'"
      using m(1) Cons by (simp add: release_def)
    have j: "j < length (asyncTasks s)" "keyOf (taskCtx (asyncTasks s ! j)) = ki"
            "taskPc (asyncTasks s ! j) = AwaitingLock"
      using m(5)[of j] Cons by auto
    have jq: "j \<notin> set q" using m(4) Cons by simp
    have j': "j < length (asyncTasks ?s')" using j(1) by simp
    have t': "asyncTasks ?s' = asyncTasks s" by simp
    show ?thesis
    proof (cases "k = ki")
      case True
      have "length (holders ki (setPc j LockGranted ?s')) = 1"
        using holders_setPc[OF j', of ki LockGranted] j m(3) by (simp add: t')
      moreover have "\<forall>x \<in> set q. x \<noteq> j" using jq by auto
      ultimately show ?thesis
        using True m Cons by (auto simp: rel lockInv_def)
    next
      case False
      have cnt: "length (holders k (setPc j LockGranted ?s')) = length (holders k s)"
        using holders_setPc[OF j', of k LockGranted] j False by (simp add: t')
      have nw: "x \<noteq> j" if "stratLocks s k = Some m'" "x \<in> set (waiters m')" for m' x
        using waiter_not_holder[OF o[OF False] that] j(2) False by auto
      show ?thesis
        using o[OF False] False cnt nw
        by (auto simp: rel lockInv_def split: option.splits)
    qed
  qed
qed

lemma finish_inv:
  assumes inv: "\<And>k. lockInv k s" and i: "i < length (asyncTasks s)"
      and h: "holdsLock (taskPc (asyncTasks s ! i))" and p: "\<not> holdsLock p"
  shows "lockInv k (finish i p s)"
  unfolding finish_def
  by (rule release_inv[OF setPc_finish(1)[OF inv i h p] setPc_finish(2)[OF inv i h p]])

lemma loopBody_inv:
  assumes inv: "\<And>k. lockInv k s" and i: "i < length (asyncTasks s)"
      and h: "holdsLock (taskPc (asyncTasks s ! i))"
  shows "lockInv k (loopBody w i s)"
  unfolding loopBody_def Let_def
  using finish_inv[OF inv i h, where p = Returned and k = k]
        finish_inv[OF inv i h, where p = Threw and k = k]
        setPc_holder_inv[OF inv i h, where k = k]
  by (auto split: option.splits sum.splits)

subsection \<open>Every event keeps the locks in order\<close>

lemma holders_append:
  "holders k (s\<lparr> stratLocks := L, asyncTasks := asyncTasks s @ [t] \<rparr>) =
     holders k s @ (if keyOf (taskCtx t) = k \<and> holdsLock (taskPc t) then [t] else [])"
  by (simp add: holders_def)

lemma invoke_inv:
  assumes inv: "\<And>k. lockInv k s"
  shows "lockInv k (invoke tr c s)"
proof (cases "stratLocks s (keyOf c)")
  case None
  have h0: "holders (keyOf c) s = []" using inv[of "keyOf c"] None by (simp add: lockInv_def)
  have eq: "invoke tr c s =
      s\<lparr> stratLocks := (stratLocks s)(keyOf c \<mapsto> newMutex\<lparr> isLocked := True \<rparr>),
         asyncTasks := asyncTasks s @
           [\<lparr> taskCtx = c, taskTrigger = tr, taskPc = LockGranted \<rparr>] \<rparr>"
    using None by (simp add: invoke_def getLock_def Let_def newMutex_def)
  show ?thesis
  proof (cases "k = keyOf c")
    case True
    then show ?thesis using h0 by (simp add: eq lockInv_def holders_append newMutex_def)
  next
    case False
    then show ?thesis using inv[of k]
      by (auto simp: eq lockInv_def holders_append nth_append split: option.splits)
  qed
next
  case (Some m)
  note inv_c = inv[of "keyOf c", unfolded lockInv_def Some, simplified]
  show ?thesis
  proof (cases "isLocked m")
    case True
    have eq: "invoke tr c s =
        s\<lparr> stratLocks := (stratLocks s)(keyOf c \<mapsto> m\<lparr> waiters := waiters m @ [length (asyncTasks s)] \<rparr>),
           asyncTasks := asyncTasks s @
             [\<lparr> taskCtx = c, taskTrigger = tr, taskPc = AwaitingLock \<rparr>] \<rparr>"
      using Some True by (simp add: invoke_def getLock_def Let_def)
    show ?thesis
    proof (cases "k = keyOf c")
      case k: True
      then show ?thesis using inv_c True
        by (auto simp: eq lockInv_def holders_append nth_append)
    next
      case False
      then show ?thesis using inv[of k]
        by (auto simp: eq lockInv_def holders_append nth_append split: option.splits)
    qed
  next
    case False
    have eq: "invoke tr c s =
        s\<lparr> stratLocks := (stratLocks s)(keyOf c \<mapsto> m\<lparr> isLocked := True \<rparr>),
           asyncTasks := asyncTasks s @
             [\<lparr> taskCtx = c, taskTrigger = tr, taskPc = LockGranted \<rparr>] \<rparr>"
      using Some False by (simp add: invoke_def getLock_def Let_def)
    show ?thesis
    proof (cases "k = keyOf c")
      case k: True
      then show ?thesis using inv_c False
        by (auto simp: eq lockInv_def holders_append nth_append)
    next
      case k: False
      then show ?thesis using inv[of k]
        by (auto simp: eq lockInv_def holders_append nth_append split: option.splits)
    qed
  qed
qed

lemma resume_inv:
  assumes inv: "\<And>k. lockInv k s"
  shows "lockInv k (resume w i s)"
proof (cases "i < length (asyncTasks s) \<and> taskPc (asyncTasks s ! i) = LockGranted")
  case True
  then have "holdsLock (taskPc (asyncTasks s ! i))" by simp
  from loopBody_inv[OF inv _ this] True show ?thesis by (simp add: resume_def)
next
  case False
  then show ?thesis using inv by (auto simp: resume_def)
qed

lemma settle_inv:
  assumes inv: "\<And>k. lockInv k s"
  shows "lockInv k (settle w i gw s)"
proof (cases "i < length (asyncTasks s) \<and> syncing (taskPc (asyncTasks s ! i))")
  case False
  then show ?thesis using inv[of k]
    by (cases "taskPc (asyncTasks s ! i)") (auto simp: settle_def)
next
  case True
  then obtain targets where pc: "taskPc (asyncTasks s ! i) = InSync targets"
    by (cases "taskPc (asyncTasks s ! i)") auto
  have i: "i < length (asyncTasks s)" using True by simp
  have h: "holdsLock (taskPc (asyncTasks s ! i))" using pc by simp
  have inv': "\<And>k. lockInv k (s\<lparr> asyncEngine := e \<rparr>)" for e using inv by simp
  have i': "i < length (asyncTasks (s\<lparr> asyncEngine := e \<rparr>))" for e using i by simp
  have h': "holdsLock (taskPc (asyncTasks (s\<lparr> asyncEngine := e \<rparr>) ! i))" for e using h by simp
  show ?thesis
    using loopBody_inv[OF inv' i' h', where k = k and w = w]
          finish_inv[OF inv' i' h', where p = Threw and k = k]
          finish_inv[OF inv' i' h', where p = Returned and k = k]
    by (simp add: settle_def i pc Let_def split: prod.splits sum.splits)
qed

lemma asyncStep_inv:
  assumes "\<And>k. lockInv k s"
  shows "lockInv k (asyncStep w s ev)"
  using assms
  by (cases ev) (simp_all add: invoke_inv resume_inv settle_inv)

lemma asyncRun_inv:
  assumes "\<And>k. lockInv k s"
  shows "lockInv k (asyncRun w evs s)"
  using assms unfolding asyncRun_def
proof (induction evs arbitrary: s k)
  case Nil
  then show ?case by simp
next
  case (Cons ev evs)
  have "\<And>k. lockInv k (asyncStep w s ev)" using Cons.prems by (rule asyncStep_inv)
  from Cons.IH[OF this] show ?case by simp
qed

lemma asyncStart_inv: "lockInv k (asyncStart eng)"
  by (simp add: lockInv_def asyncStart_def holders_def)

lemma holders_le_1:
  "lockInv k s \<Longrightarrow> length (holders k s) \<le> 1"
  by (auto simp: lockInv_def split: option.splits if_splits)

lemma inFlight_le_holders: "length (inFlight k s) \<le> length (holders k s)"
  unfolding inFlight_def holders_def
proof (rule filter_length_mono)
  fix t :: task
  assume "keyOf (taskCtx t) = k \<and> syncing (taskPc t)"
  then show "keyOf (taskCtx t) = k \<and> holdsLock (taskPc t)"
    by (cases "taskPc t") auto
qed

text \<open>
  A fill and a drift of the same strategy call the refresh together: while the sync of the
  first is in flight the second awaits the lock, an early \<open>Resume\<close> of it changes nothing,
  and it starts its own sync once the first has returned.
\<close>

lemma two_triggers_serialised:
  "map taskPc (asyncTasks (asyncRun 1 twoTriggers (asyncStart (engineAt exampleKey 2))))
     = [InSync [\<lparr> tprice = 11, amount = 1, action = Open \<rparr>,
                \<lparr> tprice = 14, amount = 1, action = Close \<rparr>], AwaitingLock] \<and>
   map taskPc (asyncTasks (asyncRun 1 (twoTriggers @ [Resume 1])
                 (asyncStart (engineAt exampleKey 2))))
     = [InSync [\<lparr> tprice = 11, amount = 1, action = Open \<rparr>,
                \<lparr> tprice = 14, amount = 1, action = Close \<rparr>], AwaitingLock] \<and>
   map taskPc (asyncTasks (asyncRun 1 (twoTriggers @ [Settle 0 (idleGateways 0), Resume 1])
                 (asyncStart (engineAt exampleKey 2))))
     = [Returned, InSync [\<lparr> tprice = 11, amount = 1, action = Open \<rparr>,
                          \<lparr> tprice = 14, amount = 1, action = Close \<rparr>]]"
  by code_simp

text \<open>
  Claim C9.  Whatever handlers call \<open>refreshGridOrdersByAnchor\<close>, in whatever order the
  runtime continues the calls and however their syncs settle, at every moment at most one
  call per strategy key holds the lock of the key, and so at most one
  \<open>syncActiveOrders\<close> per strategy key is in flight: the refreshes of a key, triggered by
  a fill or by a drift, run one after the other.
\<close>

theorem refresh_mutual_exclusion:
  "length (holders stratKey (asyncRun order_window events (asyncStart eng))) \<le> 1 \<and>
   length (inFlight stratKey (asyncRun order_window events (asyncStart eng))) \<le> 1"
proof -
  let ?s = "asyncRun order_window events (asyncStart eng)"
  have "lockInv stratKey ?s" by (rule asyncRun_inv) (rule asyncStart_inv)
  then have "length (holders stratKey ?s) \<le> 1" by (rule holders_le_1)
  then show ?thesis using inFlight_le_holders[of stratKey ?s] by simp
qed

end
